theory Spec2Isabelle
  imports Complex_Main "HOL-Library.Stream"
begin

section \<open>The snake game of script.js\<close>

text \<open>
  The script keeps the whole game in module-level variables and changes them from event
  handlers (key presses, button clicks, checkbox changes) and from the interval timer
  that calls \<open>step\<close>. The model below is a record of those variables together with the
  parts of the browser the handlers read or write (the two checkboxes, the stored high
  score, the message line, the armed interval and \<open>Math.random\<close>), and one function per
  source function, each taking the state and returning the state it leaves.

  Canvas drawing and the score, level and high-score text nodes are written but never
  read by the script; they are left out.
\<close>

subsection \<open>Values\<close>

text \<open>A cell \<open>{x, y}\<close>; a direction is a cell holding a delta.\<close>

type_synonym cell = "int \<times> int"

text \<open>
  \<open>score\<close>, \<open>level\<close> and \<open>highscore\<close> are declared by \<open>let\<close> without a value, so they
  are \<open>undefined\<close> until \<open>initGame\<close> has assigned them; arithmetic on \<open>undefined\<close> gives
  \<open>NaN\<close>.
\<close>

datatype jsnum = Undefined | NaN | Num int

fun js_arith :: "(int \<Rightarrow> int \<Rightarrow> int) \<Rightarrow> jsnum \<Rightarrow> jsnum \<Rightarrow> jsnum" where
  "js_arith f (Num a) (Num b) = Num (f a b)"
| "js_arith f _ _ = NaN"

text \<open>
  The remainder operator \<open>%\<close> on integers: the result takes the sign of the dividend,
  and a zero divisor gives \<open>NaN\<close> (here \<open>None\<close>).
\<close>

definition js_rem :: "int \<Rightarrow> int \<Rightarrow> int option" where
  "js_rem a n = (if n = 0 then None else Some (sgn a * (\<bar>a\<bar> mod \<bar>n\<bar>)))"

fun js_rem_num :: "jsnum \<Rightarrow> int \<Rightarrow> jsnum" where
  "js_rem_num (Num a) n = (case js_rem a n of None \<Rightarrow> NaN | Some r \<Rightarrow> Num r)"
| "js_rem_num _ n = NaN"

subsection \<open>Settings\<close>

text \<open>
  \<open>COLS\<close> and \<open>ROWS\<close> are the canvas size divided by the tile size, rounded down; the
  canvas belongs to the page, so both are parameters here.
\<close>

record config =
  COLS :: int
  ROWS :: int

definition BASE_SPEED :: int where "BASE_SPEED = 140"
definition SPEED_STEP :: int where "SPEED_STEP = 10"
definition POINTS_PER_LEVEL :: int where "POINTS_PER_LEVEL = 5"
definition OBSTACLE_COUNT_BY_LEVEL :: nat where "OBSTACLE_COUNT_BY_LEVEL = 1"

subsection \<open>State\<close>

text \<open>
  \<open>food\<close> and \<open>obstacles\<close> are \<open>None\<close> while the variable is still \<open>undefined\<close>.
  \<open>snake\<close> and \<open>dir\<close> are assigned by the first two statements of \<open>initGame\<close>, which
  the script runs before any handler can; they carry no \<open>undefined\<close> case.
  \<open>timer\<close> is the period of the interval armed by \<open>setInterval\<close>, if one is armed.
  \<open>message\<close> is the text of the message line, \<open>None\<close> while it is hidden.
  \<open>store\<close> is the integer kept under \<open>snake_high\<close> in \<open>localStorage\<close>, if any.
  \<open>rng\<close> is the sequence of numbers \<open>Math.random\<close> is going to return.
\<close>

record state =
  snake :: "cell list"
  dir :: cell
  food :: "cell option"
  obstacles :: "cell list option"
  score :: jsnum
  highscore :: jsnum
  level :: jsnum
  running :: bool
  paused :: bool
  stepInterval :: jsnum
  timer :: "jsnum option"
  message :: "string option"
  wrapChecked :: bool
  obstaclesChecked :: bool
  store :: "int option"
  rng :: "real stream"

text \<open>
  What a handler leaves behind: it returns, or it throws a \<open>TypeError\<close> (reading a
  property of \<open>undefined\<close>) with the variables as they were at that moment. \<open>Unmodelled\<close>
  stands for the two computations whose result is a \<open>NaN\<close> coordinate, which a cell of
  this model cannot hold: reading \<open>snake[0]\<close> of an empty array and wrapping on a grid
  with no column or no row. Neither happens in a run on a grid with a column and a row
  (lemma \<open>run_complete\<close>).
\<close>

datatype 'a result = Returned 'a | Threw state | Unmodelled

fun and_then :: "'a result \<Rightarrow> ('a \<Rightarrow> 'b result) \<Rightarrow> 'b result" where
  "and_then (Returned a) f = f a"
| "and_then (Threw s) f = Threw s"
| "and_then Unmodelled f = Unmodelled"

subsection \<open>Placing food and obstacles\<close>

text \<open>
  \<open>Math.floor(Math.random() * n)\<close>. The product is taken exactly; the script rounds
  it to a double before it takes the floor, which gives the next integer when the exact
  product is less than half a unit in the last place below it.
\<close>

definition random_below :: "int \<Rightarrow> state \<Rightarrow> int \<times> state" where
  "random_below n s = (\<lfloor>shd (rng s) * of_int n\<rfloor>, s\<lparr>rng := stl (rng s)\<rparr>)"

text \<open>\<open>cells.some(c => c.x === px && c.y === py)\<close>.\<close>

definition some_at :: "cell list \<Rightarrow> int \<Rightarrow> int \<Rightarrow> bool" where
  "some_at cells px py = list_ex (\<lambda>c. fst c = px \<and> snd c = py) cells"

function spawnFood_loop :: "config \<Rightarrow> bool \<Rightarrow> nat \<Rightarrow> state \<Rightarrow> (bool \<times> state) result" where
  "spawnFood_loop c ok tries s =
     (if \<not> ok \<and> tries < 500 then
        (let (fx, s1) = random_below (COLS c) s;
             (fy, s2) = random_below (ROWS c) s1;
             collSnake = some_at (snake s2) fx fy
         in case obstacles s2 of
              None \<Rightarrow> Threw s2
            | Some obs \<Rightarrow>
                (let collObs = some_at obs fx fy
                 in if \<not> collSnake \<and> \<not> collObs
                    then spawnFood_loop c True (tries + 1) (s2\<lparr>food := Some (fx, fy)\<rparr>)
                    else spawnFood_loop c ok (tries + 1) s2))
      else Returned (ok, s))"
  by pat_completeness auto
termination
  by (relation "measure (\<lambda>(c, ok, tries, s). 500 - tries)") auto

definition spawnFood :: "config \<Rightarrow> state \<Rightarrow> state result" where
  "spawnFood c s =
     and_then (spawnFood_loop c False 0 s)
       (\<lambda>(ok, s'). Returned (if \<not> ok then s'\<lparr>food := Some (0, 0)\<rparr> else s'))"

function generateObstacles_loop ::
    "config \<Rightarrow> nat \<Rightarrow> cell list \<Rightarrow> nat \<Rightarrow> state \<Rightarrow> (cell list \<times> state) result" where
  "generateObstacles_loop c count newObs tries s =
     (if length newObs < count \<and> tries < 1000 then
        (let (ox, s1) = random_below (COLS c) s;
             (oy, s2) = random_below (ROWS c) s1
         in if some_at (snake s2) ox oy then generateObstacles_loop c count newObs (tries + 1) s2
            else if (case food s2 of None \<Rightarrow> False | Some f \<Rightarrow> fst f = ox \<and> snd f = oy)
              then generateObstacles_loop c count newObs (tries + 1) s2
            else case obstacles s2 of
                   None \<Rightarrow> Threw s2
                 | Some obs \<Rightarrow>
                     if some_at obs ox oy
                     then generateObstacles_loop c count newObs (tries + 1) s2
                     else generateObstacles_loop c count (newObs @ [(ox, oy)]) (tries + 1) s2)
      else Returned (newObs, s))"
  by pat_completeness auto
termination
  by (relation "measure (\<lambda>(c, count, newObs, tries, s). 1000 - tries)") auto

definition generateObstacles :: "config \<Rightarrow> nat \<Rightarrow> state \<Rightarrow> state result" where
  "generateObstacles c count s =
     and_then (generateObstacles_loop c count [] 0 s)
       (\<lambda>(newObs, s'). case obstacles s' of
            None \<Rightarrow> Threw s'
          | Some obs \<Rightarrow> Returned (s'\<lparr>obstacles := Some (obs @ newObs)\<rparr>))"

subsection \<open>The message line and the timer\<close>

definition showMessage :: "string \<Rightarrow> state \<Rightarrow> state" where
  "showMessage text s = s\<lparr>message := Some text\<rparr>"

definition hideMessage :: "state \<Rightarrow> state" where
  "hideMessage s = s\<lparr>message := None\<rparr>"

definition restartLoop :: "state \<Rightarrow> state" where
  "restartLoop s =
     (let s1 = s\<lparr>timer := None\<rparr>
      in if running s1 \<and> \<not> paused s1 then s1\<lparr>timer := Some (stepInterval s1)\<rparr> else s1)"

definition stopLoop :: "state \<Rightarrow> state" where
  "stopLoop s = s\<lparr>timer := None\<rparr>"

text \<open>
  The text shown is \<open>'Game Over \<emdash> ' + reason + ' Press R to restart.'\<close>; the dash is
  the three bytes of its UTF-8 encoding.
\<close>

definition gameOver :: "string \<Rightarrow> state \<Rightarrow> state" where
  "gameOver reason s =
     showMessage (''Game Over '' @ [CHR 0xE2, CHR 0x80, CHR 0x94] @ '' '' @ reason
                  @ '' Press R to restart.'')
       (stopLoop (s\<lparr>running := False\<rparr>))"

subsection \<open>Initialising\<close>

text \<open>
  \<open>parseInt(localStorage.getItem('snake_high') || '0', 10)\<close>, for a store that holds
  nothing or the decimal text of an integer.
\<close>

definition load_high :: "state \<Rightarrow> jsnum" where
  "load_high s = (case store s of None \<Rightarrow> Num 0 | Some v \<Rightarrow> Num v)"

definition initGame :: "config \<Rightarrow> state \<Rightarrow> state result" where
  "initGame c s =
     and_then (spawnFood c (s\<lparr>snake := [(COLS c div 2, ROWS c div 2)], dir := (1, 0)\<rparr>))
       (\<lambda>s1. let s2 = s1\<lparr>obstacles := Some [], score := Num 0, level := Num 1,
                           stepInterval := Num BASE_SPEED, running := False, paused := False\<rparr>;
                  s3 = s2\<lparr>highscore := load_high s2\<rparr>
              in Returned (hideMessage s3))"

subsection \<open>One step of the game\<close>

text \<open>The head after the move, wrapped around the edges when the wrap box is checked.\<close>

definition newHead :: "config \<Rightarrow> state \<Rightarrow> cell option" where
  "newHead c s =
     (case snake s of
        [] \<Rightarrow> None
      | head # _ \<Rightarrow>
          (let nx = fst head + fst (dir s);
               ny = snd head + snd (dir s)
           in if wrapChecked s
              then (case (js_rem (nx + COLS c) (COLS c), js_rem (ny + ROWS c) (ROWS c)) of
                      (Some wx, Some wy) \<Rightarrow> Some (wx, wy)
                    | _ \<Rightarrow> None)
              else Some (nx, ny)))"

text \<open>The level-up block of \<open>step\<close>.\<close>

definition level_up :: "config \<Rightarrow> state \<Rightarrow> state result" where
  "level_up c s =
     (if js_rem_num (score s) POINTS_PER_LEVEL = Num 0 then
        (let s1 = s\<lparr>level := js_arith (+) (level s) (Num 1)\<rparr>;
             s2 = s1\<lparr>stepInterval :=
                    js_arith max (Num 30)
                      (js_arith (-) (Num BASE_SPEED)
                         (js_arith (*) (js_arith (-) (level s1) (Num 1)) (Num SPEED_STEP)))\<rparr>;
             s3 = restartLoop s2
         in if obstaclesChecked s3 then generateObstacles c OBSTACLE_COUNT_BY_LEVEL s3
            else Returned s3)
      else Returned s)"

text \<open>The high-score block of \<open>step\<close>: a comparison with a non-number is false.\<close>

definition update_high :: "state \<Rightarrow> state" where
  "update_high s =
     (case (score s, highscore s) of
        (Num a, Num b) \<Rightarrow> if a > b then s\<lparr>highscore := Num a, store := Some a\<rparr> else s
      | _ \<Rightarrow> s)"

definition step :: "config \<Rightarrow> state \<Rightarrow> state result" where
  "step c s =
     (if \<not> running s \<or> paused s then Returned s
      else case newHead c s of
        None \<Rightarrow> Unmodelled
      | Some nh \<Rightarrow>
          if \<not> wrapChecked s \<and>
             (fst nh < 0 \<or> fst nh \<ge> COLS c \<or> snd nh < 0 \<or> snd nh \<ge> ROWS c)
          then Returned (gameOver ''Hit the wall!'' s)
          else if some_at (snake s) (fst nh) (snd nh)
          then Returned (gameOver ''You bit yourself!'' s)
          else case obstacles s of
            None \<Rightarrow> Threw s
          | Some obs \<Rightarrow>
              if some_at obs (fst nh) (snd nh)
              then Returned (gameOver ''Hit an obstacle!'' s)
              else
                (let s1 = s\<lparr>snake := nh # snake s\<rparr>
                 in case food s1 of
                      None \<Rightarrow> Threw s1
                    | Some f \<Rightarrow>
                        if fst nh = fst f \<and> snd nh = snd f
                        then and_then (spawnFood c (s1\<lparr>score := js_arith (+) (score s1) (Num 1)\<rparr>))
                               (\<lambda>s2. and_then (level_up c s2) (\<lambda>s3. Returned (update_high s3)))
                        else Returned (s1\<lparr>snake := butlast (snake s1)\<rparr>)))"

subsection \<open>Controls\<close>

definition startGame :: "state \<Rightarrow> state" where
  "startGame s =
     (if \<not> running s
      then hideMessage (restartLoop (s\<lparr>running := True, paused := False\<rparr>))
      else s)"

definition pauseGame :: "state \<Rightarrow> state" where
  "pauseGame s =
     (if \<not> running s then s
      else (let s1 = s\<lparr>paused := \<not> paused s\<rparr>
            in restartLoop (showMessage (if paused s1 then ''Paused'' else '''') s1)))"

definition setDirection :: "cell \<Rightarrow> state \<Rightarrow> state" where
  "setDirection newDir s =
     (if (fst newDir = - fst (dir s) \<and> snd newDir = - snd (dir s))
         \<or> (fst newDir = fst (dir s) \<and> snd newDir = snd (dir s))
      then s
      else s\<lparr>dir := newDir\<rparr>)"

text \<open>The \<open>keydown\<close> listener, on the \<open>key\<close> of the event.\<close>

definition keydown :: "config \<Rightarrow> string \<Rightarrow> state \<Rightarrow> state result" where
  "keydown c key s =
     (let s1 = (if key \<in> set [''ArrowUp'', ''w'', ''W''] then setDirection (0, - 1) s else s);
          s2 = (if key \<in> set [''ArrowDown'', ''s'', ''S''] then setDirection (0, 1) s1 else s1);
          s3 = (if key \<in> set [''ArrowLeft'', ''a'', ''A''] then setDirection (- 1, 0) s2 else s2);
          s4 = (if key \<in> set [''ArrowRight'', ''d'', ''D''] then setDirection (1, 0) s3 else s3);
          s5 = (if key = '' '' \<or> key = ''p'' \<or> key = ''P'' then pauseGame s4 else s4)
      in if key = ''r'' \<or> key = ''R''
         then and_then (initGame c s5) (\<lambda>s6. Returned (startGame s6))
         else Returned s5)"

text \<open>
  Everything that can happen after the script has loaded: a key press, a click on one
  of the three buttons, a click on one of the two checkboxes (the box flips, then its
  \<open>change\<close> listener runs), and the interval timer calling \<open>step\<close>.
\<close>

datatype event =
  Keydown string | ClickStart | ClickPause | ClickRestart | ChangeWrap | ChangeObstacles | Tick

fun fire :: "config \<Rightarrow> event \<Rightarrow> state \<Rightarrow> state result" where
  "fire c (Keydown key) s = keydown c key s"
| "fire c ClickStart s = Returned (startGame s)"
| "fire c ClickPause s = Returned (pauseGame s)"
| "fire c ClickRestart s = and_then (initGame c s) (\<lambda>s1. Returned (startGame s1))"
| "fire c ChangeWrap s = Returned (s\<lparr>wrapChecked := \<not> wrapChecked s\<rparr>)"
| "fire c ChangeObstacles s =
     (let s1 = s\<lparr>obstaclesChecked := \<not> obstaclesChecked s\<rparr>
      in Returned (if \<not> obstaclesChecked s1 then s1\<lparr>obstacles := Some []\<rparr> else s1))"
| "fire c Tick s = step c s"

text \<open>The variables an exception leaves are the ones the next handler finds.\<close>

fun settle :: "state result \<Rightarrow> state option" where
  "settle (Returned s) = Some s"
| "settle (Threw s) = Some s"
| "settle Unmodelled = None"

text \<open>The states a sequence of events goes through, the first one included.\<close>

fun run :: "config \<Rightarrow> state \<Rightarrow> event list \<Rightarrow> state list" where
  "run c s [] = [s]"
| "run c s (e # es) = s # (case settle (fire c e s) of None \<Rightarrow> [] | Some s' \<Rightarrow> run c s' es)"

text \<open>
  The variables as the \<open>let\<close> declarations leave them, before the script's last line
  calls \<open>initGame\<close>: \<open>running\<close>, \<open>paused\<close>, \<open>stepInterval\<close> and \<open>loopHandle\<close> have their
  initial values and the others are \<open>undefined\<close>. The page supplies the two checkboxes,
  the store and the random numbers. \<open>snake\<close> and \<open>dir\<close> are \<open>undefined\<close> too; \<open>initGame\<close>
  overwrites both before reading anything, so the empty list and the zero delta stand
  in for them.
\<close>

definition declared :: "bool \<Rightarrow> bool \<Rightarrow> int option \<Rightarrow> real stream \<Rightarrow> state" where
  "declared wrap obst st r =
     \<lparr>snake = [], dir = (0, 0), food = None, obstacles = None,
      score = Undefined, highscore = Undefined, level = Undefined,
      running = False, paused = False, stepInterval = Num BASE_SPEED,
      timer = None, message = None,
      wrapChecked = wrap, obstaclesChecked = obst, store = st, rng = r\<rparr>"

text \<open>The state the page is in once the script has run to its end.\<close>

definition loaded :: "config \<Rightarrow> bool \<Rightarrow> bool \<Rightarrow> int option \<Rightarrow> real stream \<Rightarrow> state" where
  "loaded c wrap obst st r =
     (case initGame c (declared wrap obst st r) of
        Returned s \<Rightarrow> s
      | Threw s \<Rightarrow> s
      | Unmodelled \<Rightarrow> declared wrap obst st r)"

subsection \<open>Notions used in the statements\<close>

text \<open>
  The cell one pass of a placement loop samples (two calls of \<open>Math.random\<close>), the state
  after sampling it, and the cell pass number \<open>i\<close> samples from a given sequence.
\<close>

definition sample :: "config \<Rightarrow> state \<Rightarrow> cell" where
  "sample c s = (\<lfloor>shd (rng s) * of_int (COLS c)\<rfloor>, \<lfloor>shd (stl (rng s)) * of_int (ROWS c)\<rfloor>)"

definition sampled :: "state \<Rightarrow> state" where
  "sampled s = s\<lparr>rng := stl (stl (rng s))\<rparr>"

definition attempt :: "config \<Rightarrow> real stream \<Rightarrow> nat \<Rightarrow> cell" where
  "attempt c r i = (\<lfloor>r !! (2 * i) * of_int (COLS c)\<rfloor>, \<lfloor>r !! (2 * i + 1) * of_int (ROWS c)\<rfloor>)"

text \<open>The interval \<open>step\<close> computes for a level.\<close>

definition speed_of :: "jsnum \<Rightarrow> jsnum" where
  "speed_of l =
     js_arith max (Num 30)
       (js_arith (-) (Num BASE_SPEED) (js_arith (*) (js_arith (-) l (Num 1)) (Num SPEED_STEP)))"

definition in_grid :: "config \<Rightarrow> cell \<Rightarrow> bool" where
  "in_grid c p \<longleftrightarrow> 0 \<le> fst p \<and> fst p < COLS c \<and> 0 \<le> snd p \<and> snd p < ROWS c"

definition units :: "cell set" where
  "units = {(0, - 1), (0, 1), (- 1, 0), (1, 0)}"


text \<open>The scores a list of states shows, and the number a store content loads as.\<close>

fun score_values :: "state list \<Rightarrow> int list" where
  "score_values [] = []"
| "score_values (s # ss) =
     (case score s of Num n \<Rightarrow> n # score_values ss | _ \<Rightarrow> score_values ss)"

definition stored :: "int option \<Rightarrow> int" where
  "stored st = (case st of None \<Rightarrow> 0 | Some v \<Rightarrow> v)"

text \<open>
  The events that call \<open>initGame\<close>.
\<close>

definition restarts :: "event set" where
  "restarts = {ClickRestart, Keydown ''r'', Keydown ''R''}"

text \<open>
  The interval as the specification writes it:
  \<open>max(MIN_INTERVAL, BASE_INTERVAL - (level - 1) * SPEED_STEP)\<close> with a floor of 30 ms.
\<close>

definition tick_interval :: "int \<Rightarrow> int" where
  "tick_interval l = max 30 (BASE_SPEED - (l - 1) * SPEED_STEP)"

text \<open>
  What the high score has to do with the scores seen so far (the set \<open>M\<close>) and with
  the store content \<open>st\<close> the page was loaded with: before the first successful
  \<open>initGame\<close> nothing is assigned; afterwards the high score is the number in the store,
  it bounds every score seen and the loaded number, and it is one of them.
\<close>

definition tracked :: "int option \<Rightarrow> int set \<Rightarrow> state \<Rightarrow> bool" where
  "tracked st M s \<longleftrightarrow>
     (score s = Undefined \<and> highscore s = Undefined \<and> food s = None \<and> M = {} \<and> store s = st) \<or>
     (\<exists>n h. score s = Num n \<and> highscore s = Num h \<and> load_high s = Num h \<and> n \<in> M \<and>
            finite M \<and> (\<forall>m\<in>M. m \<le> h) \<and> stored st \<le> h \<and> (h = stored st \<or> h \<in> M))"

definition seen :: "state \<Rightarrow> int set" where
  "seen s = (case score s of Num n \<Rightarrow> {n} | _ \<Rightarrow> {})"

subsection \<open>Concrete games\<close>

definition grid10 :: config where
  "grid10 = \<lparr>COLS = 10, ROWS = 10\<rparr>"

definition grid2 :: config where
  "grid2 = \<lparr>COLS = 2, ROWS = 2\<rparr>"

text \<open>
  On a two by two grid: the page loads, the obstacle box is clicked twice, the game is
  restarted, and the snake eats its way up to the top edge and turns left, its next
  cell being the food at the origin. Every random number after the third is \<open>0\<close>.
\<close>

definition before_meal :: state where
  "before_meal =
     last (run grid2 (loaded grid2 False False None (0 ## 0 ## (1 / 2) ## sconst 0))
       [ChangeObstacles, ChangeObstacles, ClickRestart, Keydown ''ArrowUp'', Tick,
        Keydown ''ArrowLeft''])"

text \<open>
  A player whose store holds 7 from an earlier visit loads the page, clicks the obstacle
  box twice and restarts.
\<close>

definition returning_player :: "state list" where
  "returning_player =
     run grid10 (loaded grid10 False False (Some 7) (sconst 0))
       [ChangeObstacles, ChangeObstacles, ClickRestart]"

text \<open>
  A game that ended at the right wall at level 2, with one obstacle at the origin, about
  to be restarted; the next random numbers are \<open>0\<close>, \<open>0\<close> and then \<open>1/10\<close> for ever.
\<close>

definition ended_level2 :: state where
  "ended_level2 =
     \<lparr>snake = [(9, 5), (8, 5), (7, 5), (6, 5), (5, 5), (4, 5)], dir = (1, 0),
      food = Some (3, 3), obstacles = Some [(0, 0)],
      score = Num 5, highscore = Num 5, level = Num 2,
      running = False, paused = False, stepInterval = Num 130,
      timer = None,
      message = Some (''Game Over '' @ [CHR 0xE2, CHR 0x80, CHR 0x94]
                      @ '' Hit the wall! Press R to restart.''),
      wrapChecked = False, obstaclesChecked = True, store = Some 5,
      rng = 0 ## 0 ## sconst (1 / 10)\<rparr>"

text \<open>A running game whose head is on the right edge, moving right.\<close>

definition at_right_edge :: state where
  "at_right_edge =
     \<lparr>snake = [(9, 5), (8, 5)], dir = (1, 0),
      food = Some (0, 0), obstacles = Some [],
      score = Num 1, highscore = Num 1, level = Num 1,
      running = True, paused = False, stepInterval = Num 140,
      timer = Some (Num 140), message = None,
      wrapChecked = False, obstaclesChecked = False, store = Some 1,
      rng = sconst 0\<rparr>"

text \<open>
  On a ten by ten grid: the page loads, the obstacle box is clicked twice, the game is
  restarted with the food one cell to the right of the snake, a tick eats it, and then
  the keys Up and Left are pressed before the next tick. \<open>started10\<close> is the state
  after the restart and \<open>turned_back\<close> the state after the two key presses.
\<close>

definition double_turn :: "state list" where
  "double_turn =
     run grid10 (loaded grid10 False False None (0 ## 0 ## (3 / 5) ## (1 / 2) ## sconst 0))
       [ChangeObstacles, ChangeObstacles, ClickRestart, Tick,
        Keydown ''ArrowUp'', Keydown ''ArrowLeft'', Tick]"

definition started10 :: state where
  "started10 =
     \<lparr>snake = [(5, 5)], dir = (1, 0), food = Some (6, 5), obstacles = Some [],
      score = Num 0, highscore = Num 0, level = Num 1, running = True, paused = False,
      stepInterval = Num 140, timer = Some (Num 140), message = None,
      wrapChecked = False, obstaclesChecked = False, store = None, rng = sconst 0\<rparr>"

definition turned_back :: state where
  "turned_back =
     \<lparr>snake = [(6, 5), (5, 5)], dir = (- 1, 0), food = Some (0, 0), obstacles = Some [],
      score = Num 1, highscore = Num 1, level = Num 1, running = True, paused = False,
      stepInterval = Num 140, timer = Some (Num 140), message = None,
      wrapChecked = False, obstaclesChecked = False, store = Some 1, rng = sconst 0\<rparr>"

text \<open>
  On the same grid, with the food at the origin: the snake runs into the right wall on
  the fifth tick; then Start is clicked, Up is pressed and the timer ticks once more.
\<close>

definition wall_game :: "state list" where
  "wall_game =
     run grid10 (loaded grid10 False False None (sconst 0))
       [ChangeObstacles, ChangeObstacles, ClickRestart, Tick, Tick, Tick, Tick, Tick,
        ClickStart, Keydown ''ArrowUp'', Tick]"

text \<open>
  On the same grid, the page as loaded: the obstacle box is clicked twice, Start is
  clicked and the timer ticks twice.
\<close>

definition unfed_game :: "state list" where
  "unfed_game =
     run grid10 (loaded grid10 False False None (sconst 0))
       [ChangeObstacles, ChangeObstacles, ClickStart, Tick, Tick]"

text \<open>
  The page as loaded, and Start clicked.
\<close>

definition started_unloaded :: "state list" where
  "started_unloaded =
     run grid10 (loaded grid10 False False None (sconst 0)) [ClickStart]"

section \<open>Properties\<close>

subsection \<open>The placement loops\<close>

declare spawnFood_loop.simps [simp del] generateObstacles_loop.simps [simp del]

lemma some_at_iff: "some_at cells px py \<longleftrightarrow> (px, py) \<in> set cells"
  by (force simp: some_at_def list_ex_iff)

lemma spawnFood_loop_stop:
  "ok \<or> 500 \<le> tries \<Longrightarrow> spawnFood_loop c ok tries s = Returned (ok, s)"
  by (subst spawnFood_loop.simps) auto

lemma spawnFood_loop_go:
  "\<not> ok \<Longrightarrow> tries < 500 \<Longrightarrow>
   spawnFood_loop c ok tries s =
     (case obstacles s of
        None \<Rightarrow> Threw (sampled s)
      | Some obs \<Rightarrow>
          if sample c s \<notin> set (snake s) \<and> sample c s \<notin> set obs
          then Returned (True, (sampled s)\<lparr>food := Some (sample c s)\<rparr>)
          else spawnFood_loop c False (Suc tries) (sampled s))"
  by (subst spawnFood_loop.simps)
     (simp add: random_below_def sample_def sampled_def some_at_iff spawnFood_loop_stop
           split: option.splits)

lemma spawnFood_loop_miss:
  "\<not> ok \<Longrightarrow> tries < 500 \<Longrightarrow> obstacles s = Some obs \<Longrightarrow>
   sample c s \<in> set (snake s) \<union> set obs \<Longrightarrow>
   spawnFood_loop c ok tries s = spawnFood_loop c False (Suc tries) (sampled s)"
  by (auto simp: spawnFood_loop_go)

lemma spawnFood_loop_hit:
  "\<not> ok \<Longrightarrow> tries < 500 \<Longrightarrow> obstacles s = Some obs \<Longrightarrow>
   sample c s \<notin> set (snake s) \<union> set obs \<Longrightarrow>
   spawnFood_loop c ok tries s = Returned (True, (sampled s)\<lparr>food := Some (sample c s)\<rparr>)"
  by (auto simp: spawnFood_loop_go)

lemma spawnFood_loop_defined:
  "obstacles s = Some obs \<Longrightarrow>
   \<exists>ok' f r'. spawnFood_loop c ok tries s = Returned (ok', s\<lparr>food := f, rng := r'\<rparr>) \<and>
      (ok' \<or> f = food s) \<and>
      (ok' \<and> \<not> ok \<longrightarrow> (\<exists>cell. f = Some cell \<and> cell \<notin> set (snake s) \<and> cell \<notin> set obs))"
proof (induction "500 - tries" arbitrary: tries s ok)
  case 0
  then have "spawnFood_loop c ok tries s = Returned (ok, s\<lparr>food := food s, rng := rng s\<rparr>)"
    by (simp add: spawnFood_loop_stop)
  then show ?case by blast
next
  case (Suc n)
  show ?case
  proof (cases ok)
    case True
    then have "spawnFood_loop c ok tries s = Returned (ok, s\<lparr>food := food s, rng := rng s\<rparr>)"
      by (simp add: spawnFood_loop_stop)
    then show ?thesis by blast
  next
    case False
    from Suc.hyps(2) have lt: "tries < 500" and n: "n = 500 - Suc tries" by simp_all
    show ?thesis
    proof (cases "sample c s \<notin> set (snake s) \<and> sample c s \<notin> set obs")
      case True
      then have "spawnFood_loop c ok tries s =
          Returned (True, s\<lparr>food := Some (sample c s), rng := stl (stl (rng s))\<rparr>)"
        using Suc.prems by (simp add: spawnFood_loop_go [OF False lt] sampled_def)
      with True show ?thesis by blast
    next
      case coll: False
      have obs': "obstacles (sampled s) = Some obs"
        using Suc.prems by (simp add: sampled_def)
      from Suc.hyps(1) [OF n obs', of False]
      obtain ok' f r' where
        r: "spawnFood_loop c False (Suc tries) (sampled s) = Returned (ok', (sampled s)\<lparr>food := f, rng := r'\<rparr>)"
        and f: "ok' \<or> f = food (sampled s)"
        and g: "ok' \<and> \<not> False \<longrightarrow> (\<exists>cell. f = Some cell \<and> cell \<notin> set (snake (sampled s)) \<and> cell \<notin> set obs)"
        by blast
      have "spawnFood_loop c ok tries s = Returned (ok', s\<lparr>food := f, rng := r'\<rparr>)"
        using coll Suc.prems r by (simp add: spawnFood_loop_miss [OF False lt] sampled_def)
      with f g show ?thesis by (auto simp: sampled_def)
    qed
  qed
qed


lemma sample_attempt: "sample c s = attempt c (rng s) 0"
  by (simp add: sample_def attempt_def)

lemma attempt_sampled: "attempt c (rng (sampled s)) i = attempt c (rng s) (Suc i)"
  by (simp add: sampled_def attempt_def)

lemma sdrop_2: "sdrop 2 r = stl (stl r)"
  by (simp add: numeral_2_eq_2)

lemma spawnFood_loop_first_free:
  "obstacles s = Some obs \<Longrightarrow> tries + k < 500 \<Longrightarrow>
   \<forall>i<k. attempt c (rng s) i \<in> set (snake s) \<union> set obs \<Longrightarrow>
   attempt c (rng s) k \<notin> set (snake s) \<union> set obs \<Longrightarrow>
   spawnFood_loop c False tries s =
     Returned (True, s\<lparr>food := Some (attempt c (rng s) k), rng := sdrop (2 * Suc k) (rng s)\<rparr>)"
proof (induction k arbitrary: tries s)
  case 0
  then show ?case
    by (simp add: spawnFood_loop_hit [of False tries s obs c] sample_attempt sampled_def sdrop_2)
next
  case (Suc k)
  have miss: "sample c s \<in> set (snake s) \<union> set obs"
    using Suc.prems(3) by (simp add: sample_attempt)
  have step: "spawnFood_loop c False tries s = spawnFood_loop c False (Suc tries) (sampled s)"
    using Suc.prems(1,2) miss by (intro spawnFood_loop_miss) simp_all
  have "spawnFood_loop c False (Suc tries) (sampled s) =
     Returned (True, (sampled s)\<lparr>food := Some (attempt c (rng (sampled s)) k),
                                  rng := sdrop (2 * Suc k) (rng (sampled s))\<rparr>)"
  proof (rule Suc.IH)
    show "obstacles (sampled s) = Some obs" using Suc.prems(1) by (simp add: sampled_def)
    show "Suc tries + k < 500" using Suc.prems(2) by simp
    show "\<forall>i<k. attempt c (rng (sampled s)) i \<in> set (snake (sampled s)) \<union> set obs"
      using Suc.prems(3) by (simp add: attempt_sampled) (simp add: sampled_def)
    show "attempt c (rng (sampled s)) k \<notin> set (snake (sampled s)) \<union> set obs"
      using Suc.prems(4) by (simp add: attempt_sampled) (simp add: sampled_def)
  qed
  then show ?case
    by (simp add: step attempt_sampled) (simp add: sampled_def)
qed

lemma spawnFood_loop_none_free:
  "obstacles s = Some obs \<Longrightarrow> tries + k = 500 \<Longrightarrow>
   \<forall>i<k. attempt c (rng s) i \<in> set (snake s) \<union> set obs \<Longrightarrow>
   spawnFood_loop c False tries s = Returned (False, s\<lparr>rng := sdrop (2 * k) (rng s)\<rparr>)"
proof (induction k arbitrary: tries s)
  case 0
  then show ?case by (simp add: spawnFood_loop_stop)
next
  case (Suc k)
  have miss: "sample c s \<in> set (snake s) \<union> set obs"
    using Suc.prems(3) by (simp add: sample_attempt)
  have step: "spawnFood_loop c False tries s = spawnFood_loop c False (Suc tries) (sampled s)"
    using Suc.prems(1,2) miss by (intro spawnFood_loop_miss) simp_all
  have "spawnFood_loop c False (Suc tries) (sampled s) =
     Returned (False, (sampled s)\<lparr>rng := sdrop (2 * k) (rng (sampled s))\<rparr>)"
  proof (rule Suc.IH)
    show "obstacles (sampled s) = Some obs" using Suc.prems(1) by (simp add: sampled_def)
    show "Suc tries + k = 500" using Suc.prems(2) by simp
    show "\<forall>i<k. attempt c (rng (sampled s)) i \<in> set (snake (sampled s)) \<union> set obs"
      using Suc.prems(3) by (simp add: attempt_sampled) (simp add: sampled_def)
  qed
  then show ?case
    by (simp add: step) (simp add: sampled_def)
qed

lemma spawnFood_result:
  assumes "obstacles s = Some obs"
  shows "\<exists>f r'. spawnFood c s = Returned (s\<lparr>food := Some f, rng := r'\<rparr>)"
proof -
  from spawnFood_loop_defined [OF assms, of c False 0]
  obtain ok' f r' where
    r: "spawnFood_loop c False 0 s = Returned (ok', s\<lparr>food := f, rng := r'\<rparr>)"
    and g: "ok' \<longrightarrow> (\<exists>cell. f = Some cell)"
    by auto
  show ?thesis
  proof (cases ok')
    case True
    with g obtain cell where "f = Some cell" by blast
    with r True have "spawnFood c s = Returned (s\<lparr>food := Some cell, rng := r'\<rparr>)"
      by (simp add: spawnFood_def)
    then show ?thesis by blast
  next
    case False
    with r have "spawnFood c s = Returned (s\<lparr>food := Some (0, 0), rng := r'\<rparr>)"
      by (simp add: spawnFood_def)
    then show ?thesis by blast
  qed
qed

lemma generateObstacles_loop_stop:
  "count \<le> length newObs \<or> 1000 \<le> tries \<Longrightarrow>
   generateObstacles_loop c count newObs tries s = Returned (newObs, s)"
  by (subst generateObstacles_loop.simps) auto

lemma generateObstacles_loop_go:
  "length newObs < count \<Longrightarrow> tries < 1000 \<Longrightarrow> obstacles s = Some obs \<Longrightarrow>
   generateObstacles_loop c count newObs tries s =
     (if sample c s \<in> set (snake s) \<or> food s = Some (sample c s) \<or> sample c s \<in> set obs
      then generateObstacles_loop c count newObs (Suc tries) (sampled s)
      else generateObstacles_loop c count (newObs @ [sample c s]) (Suc tries) (sampled s))"
  by (subst generateObstacles_loop.simps)
     (auto simp: random_below_def sample_def sampled_def some_at_iff split: option.splits)

lemma generateObstacles_loop_result:
  "obstacles s = Some obs \<Longrightarrow>
   \<exists>new r'. generateObstacles_loop c count newObs tries s = Returned (new, s\<lparr>rng := r'\<rparr>)"
proof (induction "1000 - tries" arbitrary: tries s newObs)
  case 0
  then have "generateObstacles_loop c count newObs tries s = Returned (newObs, s\<lparr>rng := rng s\<rparr>)"
    by (simp add: generateObstacles_loop_stop)
  then show ?case by blast
next
  case (Suc n)
  show ?case
  proof (cases "length newObs < count")
    case False
    then have "generateObstacles_loop c count newObs tries s = Returned (newObs, s\<lparr>rng := rng s\<rparr>)"
      by (simp add: generateObstacles_loop_stop)
    then show ?thesis by blast
  next
    case True
    from Suc.hyps(2) have lt: "tries < 1000" and n: "n = 1000 - Suc tries" by simp_all
    have obs': "obstacles (sampled s) = Some obs"
      using Suc.prems by (simp add: sampled_def)
    have upd: "(sampled s)\<lparr>rng := r'\<rparr> = s\<lparr>rng := r'\<rparr>" for r'
      by (simp add: sampled_def)
    from Suc.hyps(1) [OF n obs'] show ?thesis
      unfolding generateObstacles_loop_go [OF True lt Suc.prems] upd
      by (simp split: if_splits)
  qed
qed

lemma generateObstacles_result:
  assumes "obstacles s = Some obs"
  shows "\<exists>new r'. generateObstacles c count s =
           Returned (s\<lparr>obstacles := Some (obs @ new), rng := r'\<rparr>)"
proof -
  from generateObstacles_loop_result [OF assms, of c count "[]" 0]
  obtain new r' where "generateObstacles_loop c count [] 0 s = Returned (new, s\<lparr>rng := r'\<rparr>)"
    by blast
  then have "generateObstacles c count s = Returned (s\<lparr>obstacles := Some (obs @ new), rng := r'\<rparr>)"
    using assms by (simp add: generateObstacles_def)
  then show ?thesis by blast
qed

lemma level_up_result:
  assumes "obstacles s = Some obs"
  shows "\<exists>new r'. level_up c s = Returned
           (if js_rem_num (score s) POINTS_PER_LEVEL = Num 0
            then s\<lparr>level := js_arith (+) (level s) (Num 1),
                   stepInterval := speed_of (js_arith (+) (level s) (Num 1)),
                   timer := (if running s \<and> \<not> paused s
                             then Some (speed_of (js_arith (+) (level s) (Num 1))) else None),
                   obstacles := Some (obs @ new), rng := r'\<rparr>
            else s)"
proof (cases "js_rem_num (score s) POINTS_PER_LEVEL = Num 0")
  case False
  then show ?thesis by (simp add: level_up_def)
next
  case up: True
  let ?s3 = "s\<lparr>level := js_arith (+) (level s) (Num 1),
                stepInterval := speed_of (js_arith (+) (level s) (Num 1)),
                timer := (if running s \<and> \<not> paused s
                          then Some (speed_of (js_arith (+) (level s) (Num 1))) else None)\<rparr>"
  have o3: "obstacles ?s3 = Some obs" using assms by simp
  have eq: "level_up c s =
      (if obstaclesChecked s then generateObstacles c OBSTACLE_COUNT_BY_LEVEL ?s3 else Returned ?s3)"
    using up by (simp add: level_up_def restartLoop_def speed_of_def Let_def)
  show ?thesis
  proof (cases "obstaclesChecked s")
    case True
    from generateObstacles_result [OF o3, of c OBSTACLE_COUNT_BY_LEVEL]
    obtain new r' where
      "generateObstacles c OBSTACLE_COUNT_BY_LEVEL ?s3 =
         Returned (?s3\<lparr>obstacles := Some (obs @ new), rng := r'\<rparr>)"
      by blast
    then have "level_up c s = Returned (?s3\<lparr>obstacles := Some (obs @ new), rng := r'\<rparr>)"
      using True by (simp only: eq if_True)
    then show ?thesis unfolding up by (simp only: refl if_True) blast
  next
    case False
    have "?s3\<lparr>obstacles := Some (obs @ []), rng := rng s\<rparr> = ?s3"
      using assms by simp
    then have "level_up c s = Returned (?s3\<lparr>obstacles := Some (obs @ []), rng := rng s\<rparr>)"
      using False by (simp only: eq if_False)
    then show ?thesis unfolding up by (simp only: refl if_True) blast
  qed
qed


lemma newHead_nonempty: "newHead c s = Some nh \<Longrightarrow> snake s \<noteq> []"
  by (auto simp: newHead_def split: list.splits)

lemma step_idle: "\<not> running s \<or> paused s \<Longrightarrow> step c s = Returned s"
  by (auto simp: step_def)

lemma step_wall:
  "running s \<Longrightarrow> \<not> paused s \<Longrightarrow> newHead c s = Some nh \<Longrightarrow>
   \<not> wrapChecked s \<Longrightarrow> \<not> in_grid c nh \<Longrightarrow>
   step c s = Returned (gameOver ''Hit the wall!'' s)"
  by (auto simp: step_def in_grid_def)

lemma step_self:
  "running s \<Longrightarrow> \<not> paused s \<Longrightarrow> newHead c s = Some nh \<Longrightarrow>
   wrapChecked s \<or> in_grid c nh \<Longrightarrow> nh \<in> set (snake s) \<Longrightarrow>
   step c s = Returned (gameOver ''You bit yourself!'' s)"
  by (auto simp: step_def in_grid_def some_at_iff)

lemma step_no_obstacles:
  "running s \<Longrightarrow> \<not> paused s \<Longrightarrow> newHead c s = Some nh \<Longrightarrow>
   wrapChecked s \<or> in_grid c nh \<Longrightarrow> nh \<notin> set (snake s) \<Longrightarrow> obstacles s = None \<Longrightarrow>
   step c s = Threw s"
  by (auto simp: step_def in_grid_def some_at_iff)

lemma step_obstacle:
  "running s \<Longrightarrow> \<not> paused s \<Longrightarrow> newHead c s = Some nh \<Longrightarrow>
   wrapChecked s \<or> in_grid c nh \<Longrightarrow> nh \<notin> set (snake s) \<Longrightarrow>
   obstacles s = Some obs \<Longrightarrow> nh \<in> set obs \<Longrightarrow>
   step c s = Returned (gameOver ''Hit an obstacle!'' s)"
  by (auto simp: step_def in_grid_def some_at_iff)

lemma step_no_food:
  "running s \<Longrightarrow> \<not> paused s \<Longrightarrow> newHead c s = Some nh \<Longrightarrow>
   wrapChecked s \<or> in_grid c nh \<Longrightarrow> nh \<notin> set (snake s) \<Longrightarrow>
   obstacles s = Some obs \<Longrightarrow> nh \<notin> set obs \<Longrightarrow> food s = None \<Longrightarrow>
   step c s = Threw (s\<lparr>snake := nh # snake s\<rparr>)"
  by (auto simp: step_def in_grid_def some_at_iff)

lemma step_move:
  "running s \<Longrightarrow> \<not> paused s \<Longrightarrow> newHead c s = Some nh \<Longrightarrow>
   wrapChecked s \<or> in_grid c nh \<Longrightarrow> nh \<notin> set (snake s) \<Longrightarrow>
   obstacles s = Some obs \<Longrightarrow> nh \<notin> set obs \<Longrightarrow> food s = Some f \<Longrightarrow> f \<noteq> nh \<Longrightarrow>
   step c s = Returned (s\<lparr>snake := nh # butlast (snake s)\<rparr>)"
  by (frule newHead_nonempty) (auto simp: step_def in_grid_def some_at_iff prod_eq_iff)

lemma step_eat_unfold:
  "running s \<Longrightarrow> \<not> paused s \<Longrightarrow> newHead c s = Some nh \<Longrightarrow>
   wrapChecked s \<or> in_grid c nh \<Longrightarrow> nh \<notin> set (snake s) \<Longrightarrow>
   obstacles s = Some obs \<Longrightarrow> nh \<notin> set obs \<Longrightarrow> food s = Some nh \<Longrightarrow>
   step c s =
     and_then (spawnFood c (s\<lparr>snake := nh # snake s, score := js_arith (+) (score s) (Num 1)\<rparr>))
       (\<lambda>s2. and_then (level_up c s2) (\<lambda>s3. Returned (update_high s3)))"
  by (auto simp: step_def in_grid_def some_at_iff)

lemma step_eat:
  assumes "running s" "\<not> paused s" "newHead c s = Some nh" "wrapChecked s \<or> in_grid c nh"
    "nh \<notin> set (snake s)" "obstacles s = Some obs" "nh \<notin> set obs" "food s = Some nh"
  shows "\<exists>t. step c s = Returned t \<and> snake t = nh # snake s \<and>
           score t = js_arith (+) (score s) (Num 1) \<and>
           level t = (if js_rem_num (score t) POINTS_PER_LEVEL = Num 0
                      then js_arith (+) (level s) (Num 1) else level s) \<and>
           stepInterval t = (if js_rem_num (score t) POINTS_PER_LEVEL = Num 0
                             then speed_of (level t) else stepInterval s) \<and>
           highscore t = highscore (update_high (s\<lparr>score := score t\<rparr>)) \<and>
           store t = store (update_high (s\<lparr>score := score t\<rparr>)) \<and>
           dir t = dir s \<and> running t \<and> \<not> paused t \<and>
           wrapChecked t = wrapChecked s \<and> obstaclesChecked t = obstaclesChecked s \<and>
           message t = message s \<and> food t \<noteq> None \<and> obstacles t \<noteq> None"
proof -
  let ?s2 = "s\<lparr>snake := nh # snake s, score := js_arith (+) (score s) (Num 1)\<rparr>"
  have o2: "obstacles ?s2 = Some obs" using assms(6) by simp
  from spawnFood_result [OF o2, of c] obtain f r1 where
    sp: "spawnFood c ?s2 = Returned (?s2\<lparr>food := Some f, rng := r1\<rparr>)" by blast
  let ?s3 = "?s2\<lparr>food := Some f, rng := r1\<rparr>"
  have o3: "obstacles ?s3 = Some obs" using assms(6) by simp
  from level_up_result [OF o3, of c] obtain new r2 where
    lv: "level_up c ?s3 = Returned
           (if js_rem_num (score ?s3) POINTS_PER_LEVEL = Num 0
            then ?s3\<lparr>level := js_arith (+) (level ?s3) (Num 1),
                   stepInterval := speed_of (js_arith (+) (level ?s3) (Num 1)),
                   timer := (if running ?s3 \<and> \<not> paused ?s3
                             then Some (speed_of (js_arith (+) (level ?s3) (Num 1))) else None),
                   obstacles := Some (obs @ new), rng := r2\<rparr>
            else ?s3)" by blast
  have st: "step c s = and_then (spawnFood c ?s2)
       (\<lambda>s2. and_then (level_up c s2) (\<lambda>s3. Returned (update_high s3)))"
    using assms by (rule step_eat_unfold)
  show ?thesis
    unfolding st sp and_then.simps lv
    using assms(1,2,6)
    by (simp add: update_high_def split: jsnum.splits)
qed


lemma step_unmodelled:
  "running s \<Longrightarrow> \<not> paused s \<Longrightarrow> newHead c s = None \<Longrightarrow> step c s = Unmodelled"
  by (simp add: step_def)

lemma step_cases [consumes 2, case_names unmodelled wall self no_obstacles obstacle no_food move eat]:
  assumes "running s" "\<not> paused s"
  obtains
    "newHead c s = None" "step c s = Unmodelled"
  | nh where "newHead c s = Some nh" "\<not> wrapChecked s" "\<not> in_grid c nh"
      "step c s = Returned (gameOver ''Hit the wall!'' s)"
  | nh where "newHead c s = Some nh" "wrapChecked s \<or> in_grid c nh" "nh \<in> set (snake s)"
      "step c s = Returned (gameOver ''You bit yourself!'' s)"
  | nh where "newHead c s = Some nh" "wrapChecked s \<or> in_grid c nh" "nh \<notin> set (snake s)"
      "obstacles s = None" "step c s = Threw s"
  | nh obs where "newHead c s = Some nh" "wrapChecked s \<or> in_grid c nh" "nh \<notin> set (snake s)"
      "obstacles s = Some obs" "nh \<in> set obs"
      "step c s = Returned (gameOver ''Hit an obstacle!'' s)"
  | nh obs where "newHead c s = Some nh" "wrapChecked s \<or> in_grid c nh" "nh \<notin> set (snake s)"
      "obstacles s = Some obs" "nh \<notin> set obs" "food s = None"
      "step c s = Threw (s\<lparr>snake := nh # snake s\<rparr>)"
  | nh obs f where "newHead c s = Some nh" "wrapChecked s \<or> in_grid c nh" "nh \<notin> set (snake s)"
      "obstacles s = Some obs" "nh \<notin> set obs" "food s = Some f" "f \<noteq> nh"
      "step c s = Returned (s\<lparr>snake := nh # butlast (snake s)\<rparr>)"
  | nh obs where "newHead c s = Some nh" "wrapChecked s \<or> in_grid c nh" "nh \<notin> set (snake s)"
      "obstacles s = Some obs" "nh \<notin> set obs" "food s = Some nh"
proof (cases "newHead c s")
  case None
  with assms that(1) show ?thesis by (simp add: step_unmodelled)
next
  case (Some nh)
  note nh = Some
  show ?thesis
  proof (cases "wrapChecked s \<or> in_grid c nh")
    case False
    with assms nh that(2) show ?thesis by (simp add: step_wall)
  next
    case pass: True
    show ?thesis
    proof (cases "nh \<in> set (snake s)")
      case True
      with assms nh pass that(3) show ?thesis by (simp add: step_self)
    next
      case free: False
      show ?thesis
      proof (cases "obstacles s")
        case None
        with assms nh pass free that(4) show ?thesis by (simp add: step_no_obstacles)
      next
        case (Some obs)
        note obs = Some
        show ?thesis
        proof (cases "nh \<in> set obs")
          case True
          from step_obstacle [OF assms nh pass free obs True] nh pass free obs True that(5)
          show ?thesis by blast
        next
          case clear: False
          show ?thesis
          proof (cases "food s")
            case None
            from step_no_food [OF assms nh pass free obs clear None] nh pass free obs clear None that(6)
            show ?thesis by blast
          next
            case (Some f)
            show ?thesis
            proof (cases "f = nh")
              case True
              with nh pass free obs clear Some that(8) show ?thesis by blast
            next
              case False
              from step_move [OF assms nh pass free obs clear Some False]
                nh pass free obs clear Some False that(7)
              show ?thesis by blast
            qed
          qed
        qed
      qed
    qed
  qed
qed

lemma gameOver_fields:
  "gameOver reason s = s\<lparr>running := False, timer := None,
      message := Some (''Game Over '' @ [CHR 0xE2, CHR 0x80, CHR 0x94] @ '' '' @ reason
                        @ '' Press R to restart.'')\<rparr>"
  by (simp add: gameOver_def showMessage_def stopLoop_def)


subsection \<open>Remainders and wrapping\<close>

lemma js_rem_nonneg: "0 \<le> a \<Longrightarrow> 0 < n \<Longrightarrow> js_rem a n = Some (a mod n)"
  by (cases "a = 0") (simp_all add: js_rem_def)



lemma newHead_wrap:
  assumes "0 < COLS c" "0 < ROWS c" "snake s = (hx, hy) # rest" "in_grid c (hx, hy)"
    "dir s = (dx, dy)" "(dx, dy) \<in> units" "wrapChecked s"
  shows "newHead c s = Some ((hx + dx) mod COLS c, (hy + dy) mod ROWS c)"
proof -
  have "0 \<le> hx + dx + COLS c" "0 \<le> hy + dy + ROWS c"
    using assms(1,2,4,6) by (auto simp: in_grid_def units_def)
  then show ?thesis
    using assms by (simp add: newHead_def js_rem_nonneg)
qed


lemma newHead_in_grid:
  assumes "0 < COLS c" "0 < ROWS c" "\<forall>p\<in>set (snake s). in_grid c p" "dir s \<in> units"
    "newHead c s = Some nh" "wrapChecked s \<or> in_grid c nh"
  shows "in_grid c nh"
proof (cases "wrapChecked s")
  case False
  with assms(6) show ?thesis by simp
next
  case True
  from assms(5) obtain hx hy rest where sn: "snake s = (hx, hy) # rest"
    by (cases "snake s") (auto simp: newHead_def)
  obtain dx dy where d: "dir s = (dx, dy)" by (cases "dir s")
  from assms(3) sn have g: "in_grid c (hx, hy)" by simp
  from newHead_wrap [OF assms(1,2) sn g d _ True] assms(4,5) d
  have "nh = ((hx + dx) mod COLS c, (hy + dy) mod ROWS c)" by simp
  with assms(1,2) show ?thesis by (simp add: in_grid_def)
qed

lemma centre_in_grid: "0 < COLS c \<Longrightarrow> 0 < ROWS c \<Longrightarrow> in_grid c (COLS c div 2, ROWS c div 2)"
  by (simp add: in_grid_def) linarith

subsection \<open>What a tick changes\<close>

lemma gameOver_not_running: "\<not> running (gameOver r s)"
  by (simp add: gameOver_fields)


lemma step_grows_head:
  assumes "running s" "\<not> paused s" "step c s = Returned s'" "running s'"
  shows "\<exists>nh. newHead c s = Some nh \<and> nh \<notin> set (snake s) \<and>
           (if food s = Some nh then snake s' = nh # snake s
            else snake s' = nh # butlast (snake s))"
  using assms(1,2)
proof (cases rule: step_cases [where c = c])
  case (move nh obs f)
  with assms(3) show ?thesis by auto
next
  case (eat nh obs)
  from step_eat [OF assms(1,2) eat] assms(3) eat show ?thesis by auto
qed (use assms(3,4) in \<open>auto simp: gameOver_fields\<close>)

lemma step_snake:
  assumes "settle (step c s) = Some s'"
  shows "dir s' = dir s \<and>
         (snake s' = snake s \<or>
          (\<exists>nh. newHead c s = Some nh \<and> nh \<notin> set (snake s) \<and> (wrapChecked s \<or> in_grid c nh) \<and>
                (snake s' = nh # snake s \<or> snake s' = nh # butlast (snake s))))"
proof (cases "running s \<and> \<not> paused s")
  case False
  with assms show ?thesis by (auto simp: step_idle)
next
  case True
  then have r: "running s" and p: "\<not> paused s" by simp_all
  from r p show ?thesis
  proof (cases rule: step_cases [where c = c])
    case (eat nh obs)
    from step_eat [OF r p eat] assms eat show ?thesis by auto
  qed (use assms in \<open>auto simp: gameOver_fields\<close>)
qed

lemma step_level:
  assumes "settle (step c s) = Some s'"
  shows "(level s' = level s \<and> stepInterval s' = stepInterval s) \<or>
         (level s' = js_arith (+) (level s) (Num 1) \<and> stepInterval s' = speed_of (level s'))"
proof (cases "running s \<and> \<not> paused s")
  case False
  with assms show ?thesis by (auto simp: step_idle)
next
  case True
  then have r: "running s" and p: "\<not> paused s" by simp_all
  from r p show ?thesis
  proof (cases rule: step_cases [where c = c])
    case (eat nh obs)
    from step_eat [OF r p eat] assms eat show ?thesis by (auto split: if_splits)
  qed (use assms in \<open>auto simp: gameOver_fields\<close>)
qed

lemma step_score:
  assumes "settle (step c s) = Some s'"
  shows "(score s' = score s \<and> highscore s' = highscore s \<and> store s' = store s \<and>
          (food s = None \<longrightarrow> food s' = None)) \<or>
         (food s \<noteq> None \<and> score s' = js_arith (+) (score s) (Num 1) \<and>
          highscore s' = highscore (update_high (s\<lparr>score := score s'\<rparr>)) \<and>
          store s' = store (update_high (s\<lparr>score := score s'\<rparr>)))"
proof (cases "running s \<and> \<not> paused s")
  case False
  with assms show ?thesis by (auto simp: step_idle)
next
  case True
  then have r: "running s" and p: "\<not> paused s" by simp_all
  from r p show ?thesis
  proof (cases rule: step_cases [where c = c])
    case (eat nh obs)
    from step_eat [OF r p eat] assms eat show ?thesis by auto
  qed (use assms in \<open>auto simp: gameOver_fields\<close>)
qed

subsection \<open>What the other handlers change\<close>

lemma spawnFood_undefined: "obstacles s = None \<Longrightarrow> spawnFood c s = Threw (sampled s)"
  by (simp add: spawnFood_def spawnFood_loop_go)

lemma initGame_undefined:
  "obstacles s = None \<Longrightarrow>
   initGame c s = Threw (s\<lparr>snake := [(COLS c div 2, ROWS c div 2)], dir := (1, 0),
                           rng := stl (stl (rng s))\<rparr>)"
  by (simp add: initGame_def spawnFood_undefined sampled_def)

lemma initGame_defined:
  assumes "obstacles s = Some obs"
  shows "\<exists>f r'. initGame c s =
           Returned (s\<lparr>snake := [(COLS c div 2, ROWS c div 2)], dir := (1, 0),
                       food := Some f, obstacles := Some [], score := Num 0,
                       highscore := load_high s, level := Num 1, running := False,
                       paused := False, stepInterval := Num BASE_SPEED, message := None,
                       rng := r'\<rparr>)"
proof -
  let ?s = "s\<lparr>snake := [(COLS c div 2, ROWS c div 2)], dir := (1, 0)\<rparr>"
  have "obstacles ?s = Some obs" using assms by simp
  from spawnFood_result [OF this, of c] obtain f r' where
    "spawnFood c ?s = Returned (?s\<lparr>food := Some f, rng := r'\<rparr>)" by blast
  then have "initGame c s =
           Returned (s\<lparr>snake := [(COLS c div 2, ROWS c div 2)], dir := (1, 0),
                       food := Some f, obstacles := Some [], score := Num 0,
                       highscore := load_high s, level := Num 1, running := False,
                       paused := False, stepInterval := Num BASE_SPEED, message := None,
                       rng := r'\<rparr>)"
    by (simp add: initGame_def load_high_def hideMessage_def)
  then show ?thesis by blast
qed

lemma keydown_cases:
  "keydown c key s = Returned s \<or>
   (\<exists>d\<in>units. keydown c key s = Returned (setDirection d s)) \<or>
   keydown c key s = Returned (pauseGame s) \<or>
   keydown c key s = and_then (initGame c s) (\<lambda>s1. Returned (startGame s1))"
  by (simp add: keydown_def units_def Let_def)

subsection \<open>Evaluating the concrete games\<close>

lemma spawnFood_first_try:
  "obstacles s = Some obs \<Longrightarrow> sample c s \<notin> set (snake s) \<union> set obs \<Longrightarrow>
   spawnFood c s = Returned ((sampled s)\<lparr>food := Some (sample c s)\<rparr>)"
  by (simp add: spawnFood_def spawnFood_loop_hit [of False 0 s obs c])

lemma spawnFood_zeros_blocked:
  assumes "obstacles s = Some obs" "rng s = sconst 0" "(0, 0) \<in> set (snake s) \<union> set obs"
  shows "spawnFood c s = Returned (s\<lparr>food := Some (0, 0)\<rparr>)"
proof -
  have "\<forall>i<500. attempt c (rng s) i \<in> set (snake s) \<union> set obs"
    using assms(2,3) by (simp add: attempt_def)
  from spawnFood_loop_none_free [OF assms(1) _ this, of 0]
  have "spawnFood c s = Returned (s\<lparr>food := Some (0, 0), rng := sdrop 1000 (rng s)\<rparr>)"
    by (simp add: spawnFood_def)
  also have "s\<lparr>food := Some (0, 0), rng := sdrop 1000 (rng s)\<rparr> = s\<lparr>food := Some (0, 0)\<rparr>"
    using assms(2) by simp
  finally show ?thesis .
qed

lemma loaded_eq:
  "loaded c wrap obst st r =
     (declared wrap obst st r)\<lparr>snake := [(COLS c div 2, ROWS c div 2)], dir := (1, 0),
                                rng := stl (stl r)\<rparr>"
  by (simp add: loaded_def initGame_def spawnFood_def spawnFood_loop.simps [of c False 0]
        random_below_def declared_def)

lemmas control_defs = startGame_def pauseGame_def setDirection_def keydown_def
  restartLoop_def hideMessage_def showMessage_def stopLoop_def

lemmas init_defs = initGame_def load_high_def sample_def sampled_def BASE_SPEED_def

lemmas eat_defs = level_up_def update_high_def POINTS_PER_LEVEL_def js_rem_def
  sample_def sampled_def

lemma before_meal_eq:
  "before_meal =
     \<lparr>snake = [(1, 0), (1, 1)], dir = (- 1, 0), food = Some (0, 0), obstacles = Some [],
      score = Num 1, highscore = Num 1, level = Num 1, running = True, paused = False,
      stepInterval = Num 140, timer = Some (Num 140), message = None,
      wrapChecked = False, obstaclesChecked = False, store = Some 1, rng = sconst 0\<rparr>"
  unfolding before_meal_def loaded_eq
  apply (simp add: declared_def grid2_def)
  apply (simp add: init_defs control_defs spawnFood_first_try [where obs = "[]"])
  apply (simp add: step_def newHead_def some_at_iff)
  apply (simp add: eat_defs spawnFood_first_try [where obs = "[]"])
  apply (simp add: control_defs)
  done

lemma loaded_shape:
  "snake (loaded c wrap obst st r) = [(COLS c div 2, ROWS c div 2)]"
  "dir (loaded c wrap obst st r) = (1, 0)"
  "level (loaded c wrap obst st r) = Undefined"
  "score (loaded c wrap obst st r) = Undefined"
  "highscore (loaded c wrap obst st r) = Undefined"
  "food (loaded c wrap obst st r) = None"
  "store (loaded c wrap obst st r) = st"
  by (simp_all add: loaded_eq declared_def)

lemma tracked_loaded: "tracked st {} (loaded c wrap obst st r)"
  by (simp add: tracked_def loaded_shape)

lemma returning_player_scores:
  "map score returning_player = [Undefined, Undefined, Undefined, Num 0]"
  "map highscore returning_player = [Undefined, Undefined, Undefined, Num 7]"
  unfolding returning_player_def loaded_eq
  by (simp_all add: declared_def grid10_def init_defs control_defs
        spawnFood_first_try [where obs = "[]"])

lemma double_turn_eq:
  "drop 3 double_turn =
     [started10,
      turned_back\<lparr>dir := (1, 0)\<rparr>,
      turned_back\<lparr>dir := (0, - 1)\<rparr>,
      turned_back,
      gameOver ''You bit yourself!'' turned_back]"
  unfolding double_turn_def loaded_eq
  apply (simp add: declared_def grid10_def)
  apply (simp add: init_defs control_defs spawnFood_first_try [where obs = "[]"])
  apply (simp add: step_def newHead_def some_at_iff)
  apply (simp add: eat_defs spawnFood_first_try [where obs = "[]"])
  apply (simp add: control_defs)
  apply (simp add: step_def newHead_def some_at_iff)
  apply (simp add: started10_def turned_back_def gameOver_fields)
  done

lemma turned_back_reached:
  "turned_back \<in> set (run grid10
      (loaded grid10 False False None (0 ## 0 ## (3 / 5) ## (1 / 2) ## sconst 0))
      [ChangeObstacles, ChangeObstacles, ClickRestart, Tick,
       Keydown ''ArrowUp'', Keydown ''ArrowLeft'', Tick])"
proof -
  have "turned_back \<in> set (drop 3 double_turn)" by (simp add: double_turn_eq)
  then have "turned_back \<in> set double_turn" by (rule in_set_dropD)
  then show ?thesis by (simp only: double_turn_def)
qed

subsection \<open>A game that has ended\<close>

lemma keydown_other_key:
  "key \<noteq> ''r'' \<Longrightarrow> key \<noteq> ''R'' \<Longrightarrow>
   keydown c key s = Returned s \<or>
   (\<exists>d\<in>units. keydown c key s = Returned (setDirection d s)) \<or>
   keydown c key s = Returned (pauseGame s)"
  by (simp add: keydown_def units_def Let_def)

lemma setDirection_fields:
  "d \<in> units \<Longrightarrow>
   setDirection d s = s \<or> setDirection d s = s\<lparr>dir := d\<rparr>"
  by (simp add: setDirection_def)

text \<open>
  What an event other than a restart does to a game that has ended.
\<close>

lemma ended_game_event:
  assumes "settle (fire c e (gameOver reason s)) = Some s'" "e \<notin> restarts"
  shows "(running s' \<longrightarrow> e = ClickStart) \<and>
         snake s' = snake s \<and> food s' = food s \<and> score s' = score s \<and>
         level s' = level s \<and> stepInterval s' = stepInterval s \<and>
         highscore s' = highscore s \<and> store s' = store s \<and>
         (dir s' = dir s \<or> (\<exists>key. e = Keydown key) \<and> dir s' \<in> units) \<and>
         (obstacles s' = obstacles s \<or> e = ChangeObstacles \<and> obstacles s' = Some [])"
proof (cases e)
  case (Keydown key)
  with assms(2) have k: "key \<noteq> ''r''" "key \<noteq> ''R''" by (auto simp: restarts_def)
  from keydown_other_key [OF k, of c "gameOver reason s"] assms(1) Keydown
  consider "s' = gameOver reason s"
    | d where "d \<in> units" "s' = setDirection d (gameOver reason s)"
    | "s' = pauseGame (gameOver reason s)"
    by auto
  then show ?thesis
  proof cases
    case 1
    then show ?thesis by (simp add: gameOver_fields)
  next
    case (2 d)
    from setDirection_fields [OF 2(1), of "gameOver reason s"] 2 Keydown show ?thesis
      by (auto simp: gameOver_fields)
  next
    case 3
    then show ?thesis by (simp add: pauseGame_def gameOver_fields)
  qed
next
  case ClickStart
  with assms(1) show ?thesis by (auto simp: control_defs gameOver_fields)
next
  case ClickPause
  with assms(1) show ?thesis by (auto simp: pauseGame_def gameOver_fields)
next
  case ClickRestart
  with assms(2) show ?thesis by (simp add: restarts_def)
next
  case ChangeWrap
  with assms(1) show ?thesis by (auto simp: gameOver_fields)
next
  case ChangeObstacles
  with assms(1) show ?thesis by (auto simp: gameOver_fields Let_def split: if_splits)
next
  case Tick
  with assms(1) show ?thesis by (auto simp: step_idle gameOver_not_running gameOver_fields)
qed

subsection \<open>Invariants of a run\<close>

lemma fire_cases [consumes 1, case_names same turn pause start restart_threw restart wrap obst tick]:
  assumes "settle (fire c e s) = Some s'"
  obtains "s' = s"
  | d where "d \<in> units" "s' = setDirection d s"
  | "s' = pauseGame s"
  | "s' = startGame s"
  | "obstacles s = None"
    "s' = s\<lparr>snake := [(COLS c div 2, ROWS c div 2)], dir := (1, 0), rng := stl (stl (rng s))\<rparr>"
  | obs f r' where "obstacles s = Some obs"
    "s' = startGame (s\<lparr>snake := [(COLS c div 2, ROWS c div 2)], dir := (1, 0),
                       food := Some f, obstacles := Some [], score := Num 0,
                       highscore := load_high s, level := Num 1, running := False,
                       paused := False, stepInterval := Num BASE_SPEED, message := None,
                       rng := r'\<rparr>)"
  | "s' = s\<lparr>wrapChecked := \<not> wrapChecked s\<rparr>"
  | "s' = (if obstaclesChecked s then s\<lparr>obstaclesChecked := False, obstacles := Some []\<rparr>
           else s\<lparr>obstaclesChecked := True\<rparr>)"
  | "settle (step c s) = Some s'"
proof -
  note rule = that
  have restart: thesis
    if r: "settle (and_then (initGame c s) (\<lambda>s1. Returned (startGame s1))) = Some s'"
  proof (cases "obstacles s")
    case None
    with r initGame_undefined [OF None, of c] have
      "s' = s\<lparr>snake := [(COLS c div 2, ROWS c div 2)], dir := (1, 0), rng := stl (stl (rng s))\<rparr>"
      by simp
    with None show ?thesis by (rule rule(5))
  next
    case (Some obs)
    from initGame_defined [OF Some, of c] obtain f r' where
      "initGame c s =
           Returned (s\<lparr>snake := [(COLS c div 2, ROWS c div 2)], dir := (1, 0),
                       food := Some f, obstacles := Some [], score := Num 0,
                       highscore := load_high s, level := Num 1, running := False,
                       paused := False, stepInterval := Num BASE_SPEED, message := None,
                       rng := r'\<rparr>)" by blast
    with r have
      "s' = startGame (s\<lparr>snake := [(COLS c div 2, ROWS c div 2)], dir := (1, 0),
                       food := Some f, obstacles := Some [], score := Num 0,
                       highscore := load_high s, level := Num 1, running := False,
                       paused := False, stepInterval := Num BASE_SPEED, message := None,
                       rng := r'\<rparr>)"
      by simp
    with Some show ?thesis by (rule rule(6))
  qed
  show thesis
  proof (cases e)
    case (Keydown key)
    with assms keydown_cases [of c key s] restart rule(1,2,3) show ?thesis by auto
  next
    case ClickStart
    with assms rule(4) show ?thesis by simp
  next
    case ClickPause
    with assms rule(3) show ?thesis by simp
  next
    case ClickRestart
    with assms restart show ?thesis by simp
  next
    case ChangeWrap
    with assms rule(7) show ?thesis by simp
  next
    case ChangeObstacles
    with assms rule(8) show ?thesis by (cases "obstaclesChecked s") (auto simp: Let_def)
  next
    case Tick
    with assms rule(9) show ?thesis by simp
  qed
qed

lemma run_invariant:
  assumes "P s0" "\<And>e s s'. P s \<Longrightarrow> settle (fire c e s) = Some s' \<Longrightarrow> P s'"
  shows "\<forall>s\<in>set (run c s0 evs). P s"
  using assms(1)
proof (induction evs arbitrary: s0)
  case Nil
  then show ?case by simp
next
  case (Cons e es)
  show ?case
  proof (cases "settle (fire c e s0)")
    case None
    with Cons.prems show ?thesis by simp
  next
    case (Some s')
    with Cons.prems have "P s'" by (rule assms(2))
    with Cons.IH Some Cons.prems show ?thesis by simp
  qed
qed

lemma set_butlast_subset: "set (butlast xs) \<subseteq> set xs"
  by (auto dest: in_set_butlastD)

lemma shape_preserved:
  assumes "snake s \<noteq> [] \<and> distinct (snake s)" "settle (fire c e s) = Some s'"
  shows "snake s' \<noteq> [] \<and> distinct (snake s')"
  using assms(2)
proof (cases rule: fire_cases)
  case tick
  from step_snake [OF tick] assms(1) set_butlast_subset [of "snake s"]
  show ?thesis by (auto simp: distinct_butlast)
qed (use assms(1) in \<open>auto simp: control_defs\<close>)

lemma grid_preserved:
  assumes "0 < COLS c" "0 < ROWS c"
    "(\<forall>p\<in>set (snake s). in_grid c p) \<and> dir s \<in> units" "settle (fire c e s) = Some s'"
  shows "(\<forall>p\<in>set (snake s'). in_grid c p) \<and> dir s' \<in> units"
  using assms(4)
proof (cases rule: fire_cases)
  case tick
  from assms(3) have g: "\<forall>p\<in>set (snake s). in_grid c p" and u: "dir s \<in> units" by simp_all
  from step_snake [OF tick] have d: "dir s' = dir s"
    and sn: "snake s' = snake s \<or>
          (\<exists>nh. newHead c s = Some nh \<and> nh \<notin> set (snake s) \<and> (wrapChecked s \<or> in_grid c nh) \<and>
                (snake s' = nh # snake s \<or> snake s' = nh # butlast (snake s)))"
    by simp_all
  from sn have "\<forall>p\<in>set (snake s'). in_grid c p"
  proof
    assume "snake s' = snake s"
    with g show ?thesis by simp
  next
    assume "\<exists>nh. newHead c s = Some nh \<and> nh \<notin> set (snake s) \<and> (wrapChecked s \<or> in_grid c nh) \<and>
                (snake s' = nh # snake s \<or> snake s' = nh # butlast (snake s))"
    then obtain nh where nh: "newHead c s = Some nh" "wrapChecked s \<or> in_grid c nh"
      and s': "snake s' = nh # snake s \<or> snake s' = nh # butlast (snake s)" by blast
    from newHead_in_grid [OF assms(1,2) g u nh] have "in_grid c nh" .
    with s' g set_butlast_subset [of "snake s"] show ?thesis by auto
  qed
  with d u show ?thesis by simp
next
  case (turn d)
  with assms(3) show ?thesis by (auto simp: setDirection_def)
next
  case restart_threw
  with centre_in_grid [OF assms(1,2)] show ?thesis by (simp add: units_def)
next
  case (restart obs f r')
  with centre_in_grid [OF assms(1,2)] show ?thesis by (simp add: units_def control_defs)
qed (use assms(3) in \<open>auto simp: control_defs\<close>)

lemma speed_of_Num:
  "speed_of (Num l) = Num (max 30 (BASE_SPEED - (l - 1) * SPEED_STEP))"
  by (simp add: speed_of_def)

lemma interval_preserved:
  assumes "\<forall>l. level s = Num l \<longrightarrow> stepInterval s = speed_of (Num l)"
    "settle (fire c e s) = Some s'"
  shows "\<forall>l. level s' = Num l \<longrightarrow> stepInterval s' = speed_of (Num l)"
  using assms(2)
proof (cases rule: fire_cases)
  case tick
  from step_level [OF tick] assms(1) show ?thesis by auto
next
  case (restart obs f r')
  then show ?thesis by (simp add: control_defs speed_of_Num BASE_SPEED_def)
qed (use assms(1) in \<open>auto simp: control_defs\<close>)

lemma set_score_values_Cons: "set (score_values (s # ss)) = seen s \<union> set (score_values ss)"
  by (simp add: seen_def split: jsnum.splits)

lemma set_score_values: "set (score_values ss) = {n. \<exists>s\<in>set ss. score s = Num n}"
  by (induction ss) (auto split: jsnum.splits)

lemma score_values_take_mono:
  "a \<le> b \<Longrightarrow> set (score_values (take a ss)) \<subseteq> set (score_values (take b ss))"
  using set_take_subset_set_take [of a b ss] by (auto simp: set_score_values)

lemma score_values_map: "score_values ss = [n. Num n \<leftarrow> map score ss]"
  by (induction ss) (auto split: jsnum.splits)

lemma tracked_seen: "tracked st M s \<Longrightarrow> M \<union> seen s = M"
  by (auto simp: tracked_def seen_def)

lemma tracked_preserved:
  assumes "0 \<le> stored st" "tracked st M s" "settle (fire c e s) = Some s'"
  shows "tracked st (M \<union> seen s') s'"
  using assms(3)
proof (cases rule: fire_cases)
  case tick
  from step_score [OF tick] show ?thesis
  proof
    assume "score s' = score s \<and> highscore s' = highscore s \<and> store s' = store s \<and>
          (food s = None \<longrightarrow> food s' = None)"
    with assms(2) show ?thesis
      by (auto simp: tracked_def seen_def load_high_def)
  next
    assume a: "food s \<noteq> None \<and> score s' = js_arith (+) (score s) (Num 1) \<and>
          highscore s' = highscore (update_high (s\<lparr>score := score s'\<rparr>)) \<and>
          store s' = store (update_high (s\<lparr>score := score s'\<rparr>))"
    with assms(2) obtain n h where nh: "score s = Num n" "highscore s = Num h" "load_high s = Num h"
      "n \<in> M" "finite M" "\<forall>m\<in>M. m \<le> h" "stored st \<le> h" "h = stored st \<or> h \<in> M"
      by (auto simp: tracked_def)
    from a nh have sc: "score s' = Num (n + 1)" by simp
    show ?thesis
    proof (cases "n + 1 > h")
      case True
      with a nh sc have "highscore s' = Num (n + 1)" "store s' = Some (n + 1)"
        by (simp_all add: update_high_def)
      with sc nh True show ?thesis
        by (auto simp: tracked_def seen_def load_high_def)
    next
      case False
      with a nh sc have "highscore s' = Num h" "store s' = store s"
        by (simp_all add: update_high_def)
      with sc nh False show ?thesis
        by (auto simp: tracked_def seen_def load_high_def)
    qed
  qed
next
  case restart_threw
  with assms(2) show ?thesis by (auto simp: tracked_def seen_def load_high_def)
next
  case (restart obs f r')
  from assms(2) show ?thesis
    unfolding tracked_def
  proof
    assume "score s = Undefined \<and> highscore s = Undefined \<and> food s = None \<and> M = {} \<and> store s = st"
    with restart assms(1) show "(score s' = Undefined \<and> highscore s' = Undefined \<and> food s' = None \<and>
        M \<union> seen s' = {} \<and> store s' = st) \<or>
       (\<exists>n h. score s' = Num n \<and> highscore s' = Num h \<and> load_high s' = Num h \<and> n \<in> M \<union> seen s' \<and>
            finite (M \<union> seen s') \<and> (\<forall>m\<in>M \<union> seen s'. m \<le> h) \<and> stored st \<le> h \<and>
            (h = stored st \<or> h \<in> M \<union> seen s'))"
      by (auto simp: seen_def load_high_def stored_def control_defs split: option.splits)
  next
    assume "\<exists>n h. score s = Num n \<and> highscore s = Num h \<and> load_high s = Num h \<and> n \<in> M \<and>
            finite M \<and> (\<forall>m\<in>M. m \<le> h) \<and> stored st \<le> h \<and> (h = stored st \<or> h \<in> M)"
    with restart assms(1) show "(score s' = Undefined \<and> highscore s' = Undefined \<and> food s' = None \<and>
        M \<union> seen s' = {} \<and> store s' = st) \<or>
       (\<exists>n h. score s' = Num n \<and> highscore s' = Num h \<and> load_high s' = Num h \<and> n \<in> M \<union> seen s' \<and>
            finite (M \<union> seen s') \<and> (\<forall>m\<in>M \<union> seen s'. m \<le> h) \<and> stored st \<le> h \<and>
            (h = stored st \<or> h \<in> M \<union> seen s'))"
      by (auto simp: seen_def load_high_def control_defs)
  qed
qed (use assms(2) in \<open>auto simp: tracked_def seen_def load_high_def control_defs\<close>)

lemma run_tracked:
  assumes "0 \<le> stored st"
  shows "tracked st M s \<Longrightarrow> i < length (run c s evs) \<Longrightarrow>
         tracked st (M \<union> set (score_values (take (Suc i) (run c s evs)))) (run c s evs ! i)"
proof (induction evs arbitrary: s M i)
  case Nil
  then show ?case by (simp add: set_score_values_Cons tracked_seen del: score_values.simps(2))
next
  case (Cons e es)
  show ?case
  proof (cases i)
    case 0
    with Cons.prems show ?thesis
      by (simp add: set_score_values_Cons tracked_seen del: score_values.simps(2))
  next
    case (Suc j)
    with Cons.prems(2) obtain s' where s': "settle (fire c e s) = Some s'"
      by (cases "settle (fire c e s)") simp_all
    from Suc Cons.prems(2) s' have j: "j < length (run c s' es)" by simp
    from tracked_preserved [OF assms Cons.prems(1) s'] have t: "tracked st (M \<union> seen s') s'" .
    have first: "seen s' \<subseteq> set (score_values (take (Suc j) (run c s' es)))"
      by (cases es) (simp_all add: set_score_values_Cons del: score_values.simps(2))
    from Cons.IH [OF t j]
    have "tracked st (M \<union> seen s' \<union> set (score_values (take (Suc j) (run c s' es)))) (run c s' es ! j)" .
    moreover have "M \<union> seen s' \<union> set (score_values (take (Suc j) (run c s' es))) =
        M \<union> set (score_values (take (Suc i) (run c s (e # es))))"
      using first tracked_seen [OF Cons.prems(1)] Suc s'
      by (simp add: set_score_values_Cons del: score_values.simps(2)) blast
    ultimately show ?thesis using Suc s' by simp
  qed
qed

lemma tracked_highscore:
  assumes "tracked st M s" "highscore s = Num h"
  shows "finite M \<and> M \<noteq> {} \<and> (\<forall>m\<in>M. m \<le> h) \<and> stored st \<le> h \<and> (h = stored st \<or> h \<in> M)"
  using assms by (auto simp: tracked_def)

lemma tracked_nonempty:
  assumes "tracked st M s" "M \<noteq> {}"
  shows "\<exists>h. highscore s = Num h \<and> (\<forall>m\<in>M. m \<le> h) \<and> stored st \<le> h"
  using assms by (auto simp: tracked_def)

text \<open>
  On a grid with at least one column and one row no handler ends \<open>Unmodelled\<close>: a run
  has a state for every event.
\<close>

lemma newHead_defined:
  assumes "snake s \<noteq> []" "0 < COLS c" "0 < ROWS c"
  shows "\<exists>nh. newHead c s = Some nh"
proof (cases "snake s")
  case Nil
  with assms(1) show ?thesis by simp
next
  case (Cons h rest)
  obtain wx where wx: "js_rem (fst h + fst (dir s) + COLS c) (COLS c) = Some wx"
    using assms(2) by (simp add: js_rem_def)
  obtain wy where wy: "js_rem (snd h + snd (dir s) + ROWS c) (ROWS c) = Some wy"
    using assms(3) by (simp add: js_rem_def)
  from Cons wx wy show ?thesis by (simp add: newHead_def Let_def)
qed

lemma step_defined:
  assumes "snake s \<noteq> []" "0 < COLS c" "0 < ROWS c"
  shows "\<exists>s'. settle (step c s) = Some s'"
proof (cases "running s \<and> \<not> paused s")
  case False
  then show ?thesis by (auto simp: step_idle)
next
  case True
  then have r: "running s" and p: "\<not> paused s" by simp_all
  from r p show ?thesis
  proof (cases rule: step_cases [where c = c])
    case unmodelled
    with newHead_defined [OF assms] show ?thesis by simp
  next
    case (eat nh obs)
    from step_eat [OF r p eat] show ?thesis by auto
  qed simp_all
qed

lemma restart_defined:
  "\<exists>s'. settle (and_then (initGame c s) (\<lambda>s1. Returned (startGame s1))) = Some s'"
proof (cases "obstacles s")
  case None
  then show ?thesis by (simp add: initGame_undefined)
next
  case (Some obs)
  from initGame_defined [OF Some, of c] show ?thesis by auto
qed

lemma fire_defined:
  assumes "snake s \<noteq> []" "0 < COLS c" "0 < ROWS c"
  shows "\<exists>s'. settle (fire c e s) = Some s'"
proof (cases e)
  case (Keydown key)
  with keydown_cases [of c key s] restart_defined [of c s] show ?thesis by auto
next
  case ClickRestart
  with restart_defined [of c s] show ?thesis by simp
next
  case Tick
  with step_defined [OF assms] show ?thesis by simp
qed (simp_all add: Let_def)

lemma run_length:
  assumes "0 < COLS c" "0 < ROWS c"
  shows "snake s \<noteq> [] \<and> distinct (snake s) \<Longrightarrow> length (run c s evs) = Suc (length evs)"
proof (induction evs arbitrary: s)
  case Nil
  then show ?case by simp
next
  case (Cons e es)
  from fire_defined [OF _ assms, of s e] Cons.prems obtain s' where
    s': "settle (fire c e s) = Some s'" by blast
  from shape_preserved [OF Cons.prems s'] have "snake s' \<noteq> [] \<and> distinct (snake s')" .
  from Cons.IH [OF this] s' show ?case by simp
qed

lemma run_complete:
  "0 < COLS c \<Longrightarrow> 0 < ROWS c \<Longrightarrow>
   length (run c (loaded c wrap obst st r) evs) = Suc (length evs)"
  by (rule run_length) (simp_all add: loaded_shape)

lemma run_shape:
  "\<forall>s\<in>set (run c (loaded c wrap obst st r) evs). snake s \<noteq> [] \<and> distinct (snake s)"
  by (rule run_invariant) (simp add: loaded_shape, rule shape_preserved)

lemma run_grid:
  assumes "0 < COLS c" "0 < ROWS c"
  shows "\<forall>s\<in>set (run c (loaded c wrap obst st r) evs).
           (\<forall>p\<in>set (snake s). in_grid c p) \<and> dir s \<in> units"
proof (rule run_invariant)
  show "(\<forall>p\<in>set (snake (loaded c wrap obst st r)). in_grid c p) \<and>
        dir (loaded c wrap obst st r) \<in> units"
    using centre_in_grid [OF assms] by (simp add: loaded_shape units_def)
qed (rule grid_preserved [OF assms])

lemma run_interval:
  "\<forall>s\<in>set (run c (loaded c wrap obst st r) evs).
     \<forall>l. level s = Num l \<longrightarrow> stepInterval s = speed_of (Num l)"
  by (rule run_invariant) (simp add: loaded_shape, rule interval_preserved)

lemma levelled_iff: "js_rem_num (Num a) POINTS_PER_LEVEL = Num 0 \<longleftrightarrow> a mod POINTS_PER_LEVEL = 0"
proof -
  have "sgn a * (\<bar>a\<bar> mod 5) = 0 \<longleftrightarrow> a mod 5 = 0"
    by (cases "a < 0"; cases "a = 0") (simp_all add: sgn_if, presburger+)
  then show ?thesis by (simp add: js_rem_def POINTS_PER_LEVEL_def)
qed

subsection \<open>Ticks that return\<close>

text \<open>
  A tick of a running game that returns and leaves the game running puts the new head
  in front; the snake keeps its length when the new head is not the food cell and is one
  longer when it is.
\<close>

lemma tick_length:
  assumes "running s" "\<not> paused s" "step c s = Returned s'" "running s'"
  shows "\<exists>nh. newHead c s = Some nh \<and> hd (snake s') = nh \<and>
           (food s \<noteq> Some nh \<longrightarrow> length (snake s') = length (snake s)) \<and>
           (food s = Some nh \<longrightarrow> length (snake s') = length (snake s) + 1)"
proof -
  from step_grows_head [OF assms] obtain nh where
    nh: "newHead c s = Some nh"
    and sn: "if food s = Some nh then snake s' = nh # snake s
             else snake s' = nh # butlast (snake s)"
    by blast
  from nh have "snake s \<noteq> []" by (rule newHead_nonempty)
  then have "length (butlast (snake s)) + 1 = length (snake s)" by (cases "snake s") simp_all
  with nh sn show ?thesis by (auto split: if_splits)
qed

text \<open>
  In every state of every run in which the level is a number, the interval is
  \<open>tick_interval\<close> of the level. A tick of a running game that returns and leaves the
  game running adds exactly 1 to the score when the new head is the food cell, and then
  adds exactly 1 to the level when the new score is a multiple of \<open>POINTS_PER_LEVEL\<close>;
  any other such tick leaves score and level alone. \<open>tick_interval\<close> does not increase
  with the level and is at least 30.
\<close>

lemma score_level_interval:
  assumes "s \<in> set (run c (loaded c wrap obst st r) evs)"
  shows "(\<forall>l. level s = Num l \<longrightarrow> stepInterval s = Num (tick_interval l)) \<and>
         (\<forall>s' nh n l. running s \<and> \<not> paused s \<and> step c s = Returned s' \<and> running s' \<and>
              newHead c s = Some nh \<and> score s = Num n \<and> level s = Num l \<longrightarrow>
              (food s = Some nh \<longrightarrow>
                 score s' = Num (n + 1) \<and>
                 level s' = Num (if (n + 1) mod POINTS_PER_LEVEL = 0 then l + 1 else l)) \<and>
              (food s \<noteq> Some nh \<longrightarrow> score s' = Num n \<and> level s' = Num l)) \<and>
         (\<forall>l l'. l \<le> l' \<longrightarrow> tick_interval l' \<le> tick_interval l \<and> 30 \<le> tick_interval l)"
proof (intro conjI allI impI)
  fix l assume "level s = Num l"
  with run_interval assms show "stepInterval s = Num (tick_interval l)"
    by (auto simp: speed_of_Num tick_interval_def)
next
  fix l l' :: int assume "l \<le> l'"
  then show "tick_interval l' \<le> tick_interval l" by (simp add: tick_interval_def SPEED_STEP_def)
  show "30 \<le> tick_interval l" by (simp add: tick_interval_def)
next
  fix s' nh n l
  assume a: "running s \<and> \<not> paused s \<and> step c s = Returned s' \<and> running s' \<and>
              newHead c s = Some nh \<and> score s = Num n \<and> level s = Num l"
  then have r: "running s" and p: "\<not> paused s" by simp_all
  { assume f: "food s = Some nh"
    from r p have "score s' = Num (n + 1) \<and>
          level s' = Num (if (n + 1) mod POINTS_PER_LEVEL = 0 then l + 1 else l)"
    proof (cases rule: step_cases [where c = c])
      case (eat nh' obs)
      from step_eat [OF r p eat] a show ?thesis
        by (auto simp: levelled_iff simp del: js_rem_num.simps)
    qed (use a f in \<open>auto simp: gameOver_not_running\<close>)
    then show "score s' = Num (n + 1)"
      and "level s' = Num (if (n + 1) mod POINTS_PER_LEVEL = 0 then l + 1 else l)" by simp_all }
  { assume f: "food s \<noteq> Some nh"
    from r p have "score s' = Num n \<and> level s' = Num l"
    proof (cases rule: step_cases [where c = c])
      case (eat nh' obs)
      with a f show ?thesis by simp
    qed (use a f in \<open>auto simp: gameOver_not_running\<close>)
    then show "score s' = Num n" and "level s' = Num l" by simp_all }
qed

section \<open>The claims\<close>

text \<open>
  C1. The direction one tick uses is claimed never to be the opposite of the direction
  the tick before used, however many key presses come between. \<open>setDirection\<close>
  compares the new direction with the one set last, not with the one the last tick
  used. In \<open>double_turn\<close> the fourth event is a tick that moves right; Up and then Left
  are both accepted; the next tick moves left, into the cell the snake just left, and
  ends the game.
\<close>

theorem double_turn_reverses_direction:
  "map (\<lambda>s. (running s \<and> \<not> paused s, dir s, snake s)) double_turn =
     [(False, (1, 0), [(5, 5)]),
      (False, (1, 0), [(5, 5)]),
      (False, (1, 0), [(5, 5)]),
      (True, (1, 0), [(5, 5)]),
      (True, (1, 0), [(6, 5), (5, 5)]),
      (True, (0, - 1), [(6, 5), (5, 5)]),
      (True, (- 1, 0), [(6, 5), (5, 5)]),
      (False, (- 1, 0), [(6, 5), (5, 5)])] \<and>
   message (last double_turn) =
     Some (''Game Over '' @ [CHR 0xE2, CHR 0x80, CHR 0x94]
           @ '' You bit yourself! Press R to restart.'')"
proof -
  have a: "map (\<lambda>s. (running s \<and> \<not> paused s, dir s, snake s)) (take 3 double_turn) =
     [(False, (1, 0), [(5, 5)]), (False, (1, 0), [(5, 5)]), (False, (1, 0), [(5, 5)])]"
    unfolding double_turn_def loaded_eq
    by (simp add: declared_def grid10_def)
  have b: "map (\<lambda>s. (running s \<and> \<not> paused s, dir s, snake s)) (drop 3 double_turn) =
     [(True, (1, 0), [(5, 5)]),
      (True, (1, 0), [(6, 5), (5, 5)]),
      (True, (0, - 1), [(6, 5), (5, 5)]),
      (True, (- 1, 0), [(6, 5), (5, 5)]),
      (False, (- 1, 0), [(6, 5), (5, 5)])]"
    by (simp add: double_turn_eq started10_def turned_back_def gameOver_fields)
  have "map (\<lambda>s. (running s \<and> \<not> paused s, dir s, snake s)) double_turn =
      map (\<lambda>s. (running s \<and> \<not> paused s, dir s, snake s)) (take 3 double_turn) @
      map (\<lambda>s. (running s \<and> \<not> paused s, dir s, snake s)) (drop 3 double_turn)"
    by (simp only: map_append [symmetric] append_take_drop_id)
  moreover have "drop 3 double_turn \<noteq> []"
    using double_turn_eq by simp
  then have "last double_turn = last (drop 3 double_turn)"
    by (simp add: last_drop)
  ultimately show ?thesis
    unfolding a b by (simp add: double_turn_eq gameOver_fields)
qed

text \<open>
  C2, as the code has it. The script has no state of its own for a finished game: a
  tick that ends the run only clears \<open>running\<close>, stops the interval and shows the
  message. In the state it leaves, a tick and Pause change nothing, and Start sets
  \<open>running\<close> again and leaves snake, direction, food, obstacles, score and level as the
  ended run left them. Of all events but the restarts (the Restart button and the keys
  r and R), only Start sets \<open>running\<close>, and none changes snake, food, score, level,
  interval, high score or store; a key may still change the direction, to a unit delta,
  and a click on the obstacle box may still empty the obstacles. \<open>initGame\<close>, when it
  returns, resets snake, direction, obstacles, score, level and interval.
\<close>

theorem start_after_game_over_resumes:
  "gameOver reason s =
     s\<lparr>running := False, timer := None,
        message := Some (''Game Over '' @ [CHR 0xE2, CHR 0x80, CHR 0x94] @ '' '' @ reason
                         @ '' Press R to restart.'')\<rparr> \<and>
   \<not> running (gameOver reason s) \<and>
   step c (gameOver reason s) = Returned (gameOver reason s) \<and>
   pauseGame (gameOver reason s) = gameOver reason s \<and>
   startGame (gameOver reason s) =
     s\<lparr>running := True, paused := False, timer := Some (stepInterval s), message := None\<rparr> \<and>
   (\<forall>t. initGame c (gameOver reason s) = Returned t \<longrightarrow>
        \<not> running t \<and> \<not> paused t \<and> snake t = [(COLS c div 2, ROWS c div 2)] \<and>
        dir t = (1, 0) \<and> obstacles t = Some [] \<and> score t = Num 0 \<and> level t = Num 1 \<and>
        stepInterval t = Num BASE_SPEED) \<and>
   (\<forall>e s'. settle (fire c e (gameOver reason s)) = Some s' \<and> e \<notin> restarts \<longrightarrow>
        (running s' \<longrightarrow> e = ClickStart) \<and>
        snake s' = snake s \<and> food s' = food s \<and> score s' = score s \<and>
        level s' = level s \<and> stepInterval s' = stepInterval s \<and>
        highscore s' = highscore s \<and> store s' = store s \<and>
        (dir s' = dir s \<or> (\<exists>key. e = Keydown key) \<and> dir s' \<in> units) \<and>
        (obstacles s' = obstacles s \<or> e = ChangeObstacles \<and> obstacles s' = Some []))"
proof (intro conjI allI impI)
  show "gameOver reason s =
     s\<lparr>running := False, timer := None,
        message := Some (''Game Over '' @ [CHR 0xE2, CHR 0x80, CHR 0x94] @ '' '' @ reason
                         @ '' Press R to restart.'')\<rparr>"
    by (rule gameOver_fields)
  show "\<not> running (gameOver reason s)" by (rule gameOver_not_running)
  then show "step c (gameOver reason s) = Returned (gameOver reason s)"
    by (simp add: step_idle)
  show "pauseGame (gameOver reason s) = gameOver reason s"
    by (simp add: pauseGame_def gameOver_not_running)
  show "startGame (gameOver reason s) =
     s\<lparr>running := True, paused := False, timer := Some (stepInterval s), message := None\<rparr>"
    by (simp add: control_defs gameOver_fields)
next
  fix t assume t: "initGame c (gameOver reason s) = Returned t"
  have "\<not> running t \<and> \<not> paused t \<and> snake t = [(COLS c div 2, ROWS c div 2)] \<and>
        dir t = (1, 0) \<and> obstacles t = Some [] \<and> score t = Num 0 \<and> level t = Num 1 \<and>
        stepInterval t = Num BASE_SPEED"
  proof (cases "obstacles (gameOver reason s)")
    case None
    from initGame_undefined [OF None, of c] t show ?thesis by simp
  next
    case (Some obs)
    from initGame_defined [OF Some, of c] t show ?thesis by auto
  qed
  then show "\<not> running t" "\<not> paused t" "snake t = [(COLS c div 2, ROWS c div 2)]"
    "dir t = (1, 0)" "obstacles t = Some []" "score t = Num 0" "level t = Num 1"
    "stepInterval t = Num BASE_SPEED" by simp_all
next
  fix e s'
  assume a: "settle (fire c e (gameOver reason s)) = Some s' \<and> e \<notin> restarts"
  then have f: "settle (fire c e (gameOver reason s)) = Some s'" and n: "e \<notin> restarts"
    by simp_all
  note r = ended_game_event [OF f n]
  from r show "snake s' = snake s" "food s' = food s" "score s' = score s"
    "level s' = level s" "stepInterval s' = stepInterval s" "highscore s' = highscore s"
    "store s' = store s"
    "dir s' = dir s \<or> (\<exists>key. e = Keydown key) \<and> dir s' \<in> units"
    "obstacles s' = obstacles s \<or> e = ChangeObstacles \<and> obstacles s' = Some []"
    by simp_all
  assume "running s'"
  with r show "e = ClickStart" by simp
qed

text \<open>
  The theorem at \<open>at_right_edge\<close>: Start after the wall gives back the state before the
  tick, \<open>initGame\<close> gives a fresh game, and the Up key changes the direction only.
\<close>

theorem start_after_game_over_resumes_witness:
  "initGame grid10 (gameOver ''Hit the wall!'' at_right_edge) =
     Returned (at_right_edge\<lparr>snake := [(5, 5)], food := Some (0, 0), score := Num 0,
                 running := False, timer := None\<rparr>) \<and>
   \<not> running (at_right_edge\<lparr>snake := [(5, 5)], food := Some (0, 0), score := Num 0,
                 running := False, timer := None\<rparr>) \<and>
   startGame (gameOver ''Hit the wall!'' at_right_edge) = at_right_edge \<and>
   settle (fire grid10 (Keydown ''ArrowUp'') (gameOver ''Hit the wall!'' at_right_edge)) =
     Some ((gameOver ''Hit the wall!'' at_right_edge)\<lparr>dir := (0, - 1)\<rparr>) \<and>
   Keydown ''ArrowUp'' \<notin> restarts \<and>
   \<not> running ((gameOver ''Hit the wall!'' at_right_edge)\<lparr>dir := (0, - 1)\<rparr>) \<and>
   snake ((gameOver ''Hit the wall!'' at_right_edge)\<lparr>dir := (0, - 1)\<rparr>) = [(9, 5), (8, 5)] \<and>
   score ((gameOver ''Hit the wall!'' at_right_edge)\<lparr>dir := (0, - 1)\<rparr>) = Num 1"
proof -
  let ?g = "gameOver ''Hit the wall!'' at_right_edge"
  let ?t = "at_right_edge\<lparr>snake := [(5, 5)], food := Some (0, 0), score := Num 0,
                 running := False, timer := None\<rparr>"
  have i: "initGame grid10 ?g = Returned ?t"
    by (simp add: gameOver_fields init_defs control_defs grid10_def at_right_edge_def
          spawnFood_first_try [where obs = "[]"])
  have k: "settle (fire grid10 (Keydown ''ArrowUp'') ?g) = Some (?g\<lparr>dir := (0, - 1)\<rparr>)"
    by (simp add: keydown_def setDirection_def gameOver_fields at_right_edge_def)
  have n: "Keydown ''ArrowUp'' \<notin> restarts" by (simp add: restarts_def)
  note th = start_after_game_over_resumes [of "''Hit the wall!''" at_right_edge grid10]
  from th i have "\<not> running ?t" by blast
  moreover from th have "startGame ?g =
      at_right_edge\<lparr>running := True, paused := False,
                     timer := Some (stepInterval at_right_edge), message := None\<rparr>"
    by blast
  then have "startGame ?g = at_right_edge"
    by (simp add: at_right_edge_def)
  moreover from th k n have "(running (?g\<lparr>dir := (0, - 1)\<rparr>) \<longrightarrow> Keydown ''ArrowUp'' = ClickStart) \<and>
      snake (?g\<lparr>dir := (0, - 1)\<rparr>) = snake at_right_edge \<and>
      score (?g\<lparr>dir := (0, - 1)\<rparr>) = score at_right_edge"
    by blast
  then have "\<not> running (?g\<lparr>dir := (0, - 1)\<rparr>)"
    "snake (?g\<lparr>dir := (0, - 1)\<rparr>) = [(9, 5), (8, 5)]"
    "score (?g\<lparr>dir := (0, - 1)\<rparr>) = Num 1"
    by (simp_all add: at_right_edge_def)
  ultimately show ?thesis using i k n by simp
qed

text \<open>
  C2 as claimed fails in \<open>wall_game\<close>: after the fifth tick the game is over; the click
  on Start makes it run again with the same snake and score, and the next tick moves
  the snake.
\<close>

theorem start_resumes_ended_run_counterexample:
  "map (\<lambda>s. (running s, snake s, dir s, score s, message s)) wall_game =
     [(False, [(5, 5)], (1, 0), Undefined, None),
      (False, [(5, 5)], (1, 0), Undefined, None),
      (False, [(5, 5)], (1, 0), Undefined, None),
      (True, [(5, 5)], (1, 0), Num 0, None),
      (True, [(6, 5)], (1, 0), Num 0, None),
      (True, [(7, 5)], (1, 0), Num 0, None),
      (True, [(8, 5)], (1, 0), Num 0, None),
      (True, [(9, 5)], (1, 0), Num 0, None),
      (False, [(9, 5)], (1, 0), Num 0,
         Some (''Game Over '' @ [CHR 0xE2, CHR 0x80, CHR 0x94]
               @ '' Hit the wall! Press R to restart.'')),
      (True, [(9, 5)], (1, 0), Num 0, None),
      (True, [(9, 5)], (0, - 1), Num 0, None),
      (True, [(9, 4)], (0, - 1), Num 0, None)]"
  unfolding wall_game_def loaded_eq
  apply (simp add: declared_def grid10_def)
  apply (simp add: init_defs control_defs spawnFood_first_try [where obs = "[]"])
  apply (simp add: step_def newHead_def some_at_iff gameOver_fields)
  apply (simp add: control_defs)
  apply (simp add: step_def newHead_def some_at_iff)
  done

text \<open>
  C3. \<open>initGame\<close> is claimed to evaluate without failure, the first time as well as
  later, and to place the food as if there were no obstacle. It calls \<open>spawnFood\<close>
  before it assigns \<open>obstacles = []\<close>. On the script's own first call \<open>obstacles\<close> is
  still \<open>undefined\<close>, so the first pass of the placement loop throws, with only \<open>snake\<close>
  and \<open>dir\<close> assigned (and two random numbers used). On a later call the obstacles of
  the game before are still there: in \<open>ended_level2\<close> the first sampled cell, the
  origin, is free of the new snake but is rejected for the old obstacle, and the food
  goes to the second sampled cell.
\<close>

theorem initGame_reads_obstacles_before_reset:
  "initGame c (declared wrap obst st r) =
     Threw ((declared wrap obst st r)\<lparr>snake := [(COLS c div 2, ROWS c div 2)], dir := (1, 0),
                                       rng := stl (stl r)\<rparr>) \<and>
   attempt grid10 (rng ended_level2) 0 = (0, 0) \<and>
   initGame grid10 ended_level2 =
     Returned (ended_level2\<lparr>snake := [(5, 5)], dir := (1, 0), food := Some (1, 1),
                 obstacles := Some [], score := Num 0, level := Num 1,
                 stepInterval := Num 140, highscore := Num 5, message := None,
                 rng := sconst (1 / 10)\<rparr>)"
proof (intro conjI)
  show "initGame c (declared wrap obst st r) =
     Threw ((declared wrap obst st r)\<lparr>snake := [(COLS c div 2, ROWS c div 2)], dir := (1, 0),
                                       rng := stl (stl r)\<rparr>)"
    by (simp add: initGame_def spawnFood_def spawnFood_loop.simps [of c False 0]
          random_below_def declared_def)
  show "attempt grid10 (rng ended_level2) 0 = (0, 0)"
    by (simp add: attempt_def ended_level2_def)
  let ?s = "ended_level2\<lparr>snake := [(5, 5)], dir := (1, 0)\<rparr>"
  have o: "obstacles ?s = Some [(0, 0)]" by (simp add: ended_level2_def)
  have "spawnFood_loop grid10 False 0 ?s =
      Returned (True, ?s\<lparr>food := Some (attempt grid10 (rng ?s) 1),
                          rng := sdrop (2 * Suc 1) (rng ?s)\<rparr>)"
    by (rule spawnFood_loop_first_free [OF o])
       (simp_all add: attempt_def ended_level2_def grid10_def numeral_2_eq_2 numeral_3_eq_3)
  then have "spawnFood grid10 ?s = Returned (?s\<lparr>food := Some (1, 1), rng := sconst (1 / 10)\<rparr>)"
    by (simp add: spawnFood_def attempt_def ended_level2_def grid10_def numeral_2_eq_2
          numeral_3_eq_3)
  then show "initGame grid10 ended_level2 =
     Returned (ended_level2\<lparr>snake := [(5, 5)], dir := (1, 0), food := Some (1, 1),
                 obstacles := Some [], score := Num 0, level := Num 1,
                 stepInterval := Num 140, highscore := Num 5, message := None,
                 rng := sconst (1 / 10)\<rparr>)"
    by (simp add: initGame_def grid10_def load_high_def hideMessage_def BASE_SPEED_def)
       (simp add: ended_level2_def)
qed

text \<open>
  C4, as the code has it. With \<open>obstacles\<close> assigned, \<open>spawnFood\<close> samples at most 500
  cells, two random numbers each, and puts the food on the first sampled cell that is
  neither on the snake nor on an obstacle. When all 500 sampled cells are taken it puts
  the food on \<open>(0, 0)\<close>, whether that cell is free or not. Nothing else changes.
\<close>

theorem spawnFood_first_free_or_fallback:
  assumes "obstacles s = Some obs"
  shows "(\<forall>k<500. (\<forall>i<k. attempt c (rng s) i \<in> set (snake s) \<union> set obs) \<and>
                  attempt c (rng s) k \<notin> set (snake s) \<union> set obs \<longrightarrow>
            spawnFood c s = Returned (s\<lparr>food := Some (attempt c (rng s) k),
                                        rng := sdrop (2 * Suc k) (rng s)\<rparr>)) \<and>
         ((\<forall>i<500. attempt c (rng s) i \<in> set (snake s) \<union> set obs) \<longrightarrow>
            spawnFood c s = Returned (s\<lparr>food := Some (0, 0), rng := sdrop 1000 (rng s)\<rparr>))"
proof (intro conjI allI impI)
  fix k :: nat
  assume "k < 500"
    and "(\<forall>i<k. attempt c (rng s) i \<in> set (snake s) \<union> set obs) \<and>
         attempt c (rng s) k \<notin> set (snake s) \<union> set obs"
  then show "spawnFood c s = Returned (s\<lparr>food := Some (attempt c (rng s) k),
                                        rng := sdrop (2 * Suc k) (rng s)\<rparr>)"
    using spawnFood_loop_first_free [OF assms, of 0 k c] by (simp add: spawnFood_def)
next
  assume "\<forall>i<500. attempt c (rng s) i \<in> set (snake s) \<union> set obs"
  then show "spawnFood c s = Returned (s\<lparr>food := Some (0, 0), rng := sdrop 1000 (rng s)\<rparr>)"
    using spawnFood_loop_none_free [OF assms, of 0 500 c] by (simp add: spawnFood_def)
qed

text \<open>
  The theorem at a restart of \<open>ended_level2\<close>, obstacle list emptied: the first sampled
  cell is free and the food goes there.
\<close>

theorem spawnFood_first_free_or_fallback_witness:
  "obstacles (ended_level2\<lparr>obstacles := Some []\<rparr>) = Some [] \<and>
   spawnFood grid10 (ended_level2\<lparr>obstacles := Some []\<rparr>) =
     Returned (ended_level2\<lparr>obstacles := Some [], food := Some (0, 0),
                             rng := sconst (1 / 10)\<rparr>)"
proof -
  let ?s = "ended_level2\<lparr>obstacles := Some []\<rparr>"
  have o: "obstacles ?s = Some []" by simp
  have free: "(\<forall>i<0. attempt grid10 (rng ?s) i \<in> set (snake ?s) \<union> set []) \<and>
      attempt grid10 (rng ?s) 0 \<notin> set (snake ?s) \<union> set []"
    by (simp add: attempt_def ended_level2_def)
  have "spawnFood grid10 ?s =
      Returned (?s\<lparr>food := Some (attempt grid10 (rng ?s) 0), rng := sdrop (2 * Suc 0) (rng ?s)\<rparr>)"
    by (rule spawnFood_first_free_or_fallback [OF o, of grid10, THEN conjunct1, rule_format,
          OF _ free]) simp
  then show ?thesis
    by (simp add: attempt_def ended_level2_def numeral_2_eq_2)
qed

text \<open>
  C4 as claimed fails: in \<open>before_meal\<close> the snake is about to eat the food at the
  origin. The tick calls \<open>spawnFood\<close> with the origin under the new head; all 500 sampled
  cells are the origin, and the food is put back on the origin, on the snake, although
  the cell \<open>(0, 1)\<close> of the grid is free.
\<close>

theorem spawnFood_overlap_counterexample:
  "spawnFood grid2 (before_meal\<lparr>snake := (0, 0) # snake before_meal, score := Num 2\<rparr>) =
     Returned (before_meal\<lparr>snake := [(0, 0), (1, 0), (1, 1)], score := Num 2,
                             food := Some (0, 0)\<rparr>) \<and>
   step grid2 before_meal =
     Returned (before_meal\<lparr>snake := [(0, 0), (1, 0), (1, 1)], score := Num 2,
                             food := Some (0, 0), highscore := Num 2, store := Some 2\<rparr>) \<and>
   obstacles before_meal = Some [] \<and>
   in_grid grid2 (0, 1) \<and> ((0, 1) :: cell) \<notin> set [(0, 0), (1, 0), (1, 1)]"
proof -
  let ?s = "before_meal\<lparr>snake := (0, 0) # snake before_meal, score := Num 2\<rparr>"
  have sp: "spawnFood grid2 ?s = Returned (?s\<lparr>food := Some (0, 0)\<rparr>)"
    by (rule spawnFood_zeros_blocked [where obs = "[]"]) (simp_all add: before_meal_eq)
  have "step grid2 before_meal =
      and_then (spawnFood grid2 ?s)
        (\<lambda>s2. and_then (level_up grid2 s2) (\<lambda>s3. Returned (update_high s3)))"
    by (simp add: before_meal_eq step_def newHead_def some_at_iff grid2_def)
  then have "step grid2 before_meal =
      Returned (before_meal\<lparr>snake := [(0, 0), (1, 0), (1, 1)], score := Num 2,
                              food := Some (0, 0), highscore := Num 2, store := Some 2\<rparr>)"
    unfolding sp by (simp add: before_meal_eq eat_defs)
  with sp show ?thesis
    by (simp add: before_meal_eq in_grid_def grid2_def)
qed

text \<open>
  C5. In every state of every run the cells of the snake are pairwise distinct, and
  they stay so over every tick. On a grid with at least one column and one row, a tick
  of a running game whose new head is a cell of the snake, the last one included, ends
  the run: it returns the state before it with \<open>running\<close> false, the interval stopped
  and the message for biting itself shown, the snake unchanged.
\<close>

theorem snake_cells_distinct:
  assumes "s \<in> set (run c (loaded c wrap obst st r) evs)"
  shows "distinct (snake s) \<and> snake s \<noteq> [] \<and>
         (\<forall>s'. settle (step c s) = Some s' \<longrightarrow> distinct (snake s')) \<and>
         (0 < COLS c \<and> 0 < ROWS c \<longrightarrow>
            (\<forall>nh. running s \<and> \<not> paused s \<and> newHead c s = Some nh \<and> nh \<in> set (snake s) \<longrightarrow>
                  step c s = Returned (gameOver ''You bit yourself!'' s) \<and>
                  step c s =
                    Returned (s\<lparr>running := False, timer := None,
                               message := Some (''Game Over '' @ [CHR 0xE2, CHR 0x80, CHR 0x94]
                                  @ '' You bit yourself! Press R to restart.'')\<rparr>) \<and>
                  \<not> running (gameOver ''You bit yourself!'' s) \<and>
                  timer (gameOver ''You bit yourself!'' s) = None \<and>
                  message (gameOver ''You bit yourself!'' s) =
                    Some (''Game Over '' @ [CHR 0xE2, CHR 0x80, CHR 0x94]
                          @ '' You bit yourself! Press R to restart.'') \<and>
                  snake (gameOver ''You bit yourself!'' s) = snake s))"
proof (intro conjI allI impI)
  from run_shape assms show sh: "distinct (snake s)" and "snake s \<noteq> []" by blast+
  show "distinct (snake s')" if "settle (step c s) = Some s'" for s'
  proof -
    from that have "settle (fire c Tick s) = Some s'" by simp
    with run_shape assms shape_preserved [of s c Tick s'] show ?thesis by blast
  qed
next
  fix nh
  assume dims: "0 < COLS c \<and> 0 < ROWS c"
    and a: "running s \<and> \<not> paused s \<and> newHead c s = Some nh \<and> nh \<in> set (snake s)"
  from run_grid [of c wrap obst st r evs] dims assms a have "in_grid c nh" by blast
  with a step_self [of s c nh] show st: "step c s = Returned (gameOver ''You bit yourself!'' s)"
    by simp
  then show "step c s =
      Returned (s\<lparr>running := False, timer := None,
                 message := Some (''Game Over '' @ [CHR 0xE2, CHR 0x80, CHR 0x94]
                    @ '' You bit yourself! Press R to restart.'')\<rparr>)"
    by (simp add: gameOver_fields)
  show "\<not> running (gameOver ''You bit yourself!'' s)" by (rule gameOver_not_running)
  show "timer (gameOver ''You bit yourself!'' s) = None" by (simp add: gameOver_fields)
  show "message (gameOver ''You bit yourself!'' s) =
      Some (''Game Over '' @ [CHR 0xE2, CHR 0x80, CHR 0x94]
            @ '' You bit yourself! Press R to restart.'')"
    by (simp add: gameOver_fields)
  show "snake (gameOver ''You bit yourself!'' s) = snake s"
    by (simp add: gameOver_fields)
qed

text \<open>
  The theorem at \<open>turned_back\<close>, whose new head is the second cell of the snake.
\<close>

theorem snake_cells_distinct_witness:
  "turned_back \<in> set double_turn \<and>
   distinct (snake turned_back) \<and>
   running turned_back \<and> \<not> paused turned_back \<and>
   newHead grid10 turned_back = Some (5, 5) \<and> (5, 5) \<in> set (snake turned_back) \<and>
   step grid10 turned_back =
     Returned (turned_back\<lparr>running := False, timer := None,
                 message := Some (''Game Over '' @ [CHR 0xE2, CHR 0x80, CHR 0x94]
                    @ '' You bit yourself! Press R to restart.'')\<rparr>) \<and>
   \<not> running (gameOver ''You bit yourself!'' turned_back) \<and>
   snake (gameOver ''You bit yourself!'' turned_back) = [(6, 5), (5, 5)]"
proof -
  have nh: "newHead grid10 turned_back = Some (5, 5)"
    by (simp add: newHead_def turned_back_def)
  have pre: "running turned_back \<and> \<not> paused turned_back \<and>
      newHead grid10 turned_back = Some (5, 5) \<and> (5, 5) \<in> set (snake turned_back)"
    using nh by (simp add: turned_back_def)
  have dims: "0 < COLS grid10 \<and> 0 < ROWS grid10" by (simp add: grid10_def)
  from snake_cells_distinct [OF turned_back_reached] dims pre
  have "distinct (snake turned_back)"
    and "step grid10 turned_back =
       Returned (turned_back\<lparr>running := False, timer := None,
                 message := Some (''Game Over '' @ [CHR 0xE2, CHR 0x80, CHR 0x94]
                    @ '' You bit yourself! Press R to restart.'')\<rparr>) \<and>
         \<not> running (gameOver ''You bit yourself!'' turned_back) \<and>
         snake (gameOver ''You bit yourself!'' turned_back) = snake turned_back"
    by blast+
  with pre turned_back_reached show ?thesis
    by (simp add: double_turn_def) (simp add: turned_back_def)
qed

text \<open>
  C6. Every tick that does not end the run is claimed to keep the length of the snake
  unless it eats. In \<open>unfed_game\<close> the script's first \<open>initGame\<close> has thrown (C3), so
  \<open>food\<close> is still \<open>undefined\<close>; the obstacle box has given \<open>obstacles\<close> a value and
  Start has set \<open>running\<close>. Each tick puts the new head in front, throws on
  \<open>food.x\<close> before it can remove the last cell, and leaves the game running: the
  snake is one cell longer after every tick, and nothing was eaten.
\<close>

theorem tick_without_food_grows_snake:
  "map (\<lambda>s. (running s \<and> \<not> paused s, food s, obstacles s, snake s, length (snake s))) unfed_game =
     [(False, None, None, [(5, 5)], 1),
      (False, None, None, [(5, 5)], 1),
      (False, None, Some [], [(5, 5)], 1),
      (True, None, Some [], [(5, 5)], 1),
      (True, None, Some [], [(6, 5), (5, 5)], 2),
      (True, None, Some [], [(7, 5), (6, 5), (5, 5)], 3)]"
  unfolding unfed_game_def loaded_eq
  apply (simp add: declared_def grid10_def)
  apply (simp add: control_defs)
  apply (simp add: step_def newHead_def some_at_iff)
  done



text \<open>
  C8. The interval is claimed to be \<open>max(30, BASE_SPEED - (level - 1) * SPEED_STEP)\<close>
  always. In \<open>started_unloaded\<close> the script's first \<open>initGame\<close> has thrown (C3) before
  it assigned \<open>level\<close>: in the page as loaded, and in the running game after Start, the
  level is \<open>undefined\<close>, the interval is 140 and the formula gives \<open>NaN\<close>.
\<close>

theorem interval_before_first_initialize:
  "map (\<lambda>s. (running s, level s, stepInterval s, timer s, speed_of (level s))) started_unloaded =
     [(False, Undefined, Num 140, None, NaN),
      (True, Undefined, Num 140, Some (Num 140), NaN)]"
  unfolding started_unloaded_def loaded_eq
  by (simp add: declared_def grid10_def control_defs speed_of_def BASE_SPEED_def)

text \<open>
  C9, as the code has it. When the loaded store content is not negative: in every state
  of every run in which the high score has a value, it is the largest of the number
  loaded from the store (0 when the store is empty) and the scores seen so far, and from
  then on it has a value that never decreases.
\<close>

theorem highscore_is_max_of_loaded_and_seen:
  assumes "0 \<le> stored st" "ss = run c (loaded c wrap obst st r) evs" "i < length ss"
    "highscore (ss ! i) = Num h"
  shows "h = Max (insert (stored st) (set (score_values (take (Suc i) ss)))) \<and>
         (\<forall>j. i \<le> j \<and> j < length ss \<longrightarrow> (\<exists>h'. highscore (ss ! j) = Num h' \<and> h \<le> h'))"
proof -
  let ?S = "\<lambda>k. set (score_values (take (Suc k) ss))"
  have tr: "tracked st (?S k) (ss ! k)" if "k < length ss" for k
    using run_tracked [OF assms(1) tracked_loaded] that assms(2) by simp
  from tracked_highscore [OF tr [OF assms(3)] assms(4)]
  have fin: "finite (?S i)" and ne: "?S i \<noteq> {}" and ub: "\<forall>m\<in>?S i. m \<le> h"
    and lo: "stored st \<le> h" and mem: "h = stored st \<or> h \<in> ?S i" by simp_all
  have "Max (insert (stored st) (?S i)) = h"
  proof (rule Max_eqI)
    show "finite (insert (stored st) (?S i))" using fin by simp
    show "y \<le> h" if "y \<in> insert (stored st) (?S i)" for y using that ub lo by auto
    show "h \<in> insert (stored st) (?S i)" using mem by auto
  qed
  moreover have "\<forall>j. i \<le> j \<and> j < length ss \<longrightarrow> (\<exists>h'. highscore (ss ! j) = Num h' \<and> h \<le> h')"
  proof (intro allI impI)
    fix j assume j: "i \<le> j \<and> j < length ss"
    then have sub: "?S i \<subseteq> ?S j" by (intro score_values_take_mono) simp
    with ne have "?S j \<noteq> {}" by auto
    from tracked_nonempty [OF tr this] j obtain h' where
      h': "highscore (ss ! j) = Num h'" "\<forall>m\<in>?S j. m \<le> h'" "stored st \<le> h'" by auto
    from mem sub h'(2,3) have "h \<le> h'" by auto
    with h'(1) show "\<exists>h'. highscore (ss ! j) = Num h' \<and> h \<le> h'" by blast
  qed
  ultimately show ?thesis by simp
qed

text \<open>The theorem at the last state of \<open>returning_player\<close>.\<close>

theorem highscore_is_max_of_loaded_and_seen_witness:
  "0 \<le> stored (Some 7) \<and> 3 < length returning_player \<and>
   highscore (returning_player ! 3) = Num 7 \<and>
   7 = Max (insert (stored (Some 7)) (set (score_values (take (Suc 3) returning_player))))"
proof -
  have a: "0 \<le> stored (Some 7)" by (simp add: stored_def)
  have len: "length returning_player = 4"
    using arg_cong [OF returning_player_scores(2), of length] by simp
  then have l: "3 < length returning_player" by simp
  have "highscore (returning_player ! 3) = map highscore returning_player ! 3"
    using l by simp
  then have h: "highscore (returning_player ! 3) = Num 7"
    by (simp add: returning_player_scores(2))
  from highscore_is_max_of_loaded_and_seen [OF a returning_player_def l h] a l h
  show ?thesis by simp
qed

text \<open>
  C9 as claimed fails for \<open>returning_player\<close>: the only score ever seen is 0, and the
  high score is the 7 loaded from the store.
\<close>

theorem highscore_not_max_seen_counterexample:
  "highscore (last returning_player) = Num 7 \<and>
   score_values returning_player = [0] \<and>
   Max (set (score_values returning_player)) = 0"
proof -
  note sc = returning_player_scores(1) and hi = returning_player_scores(2)
  have ne: "returning_player \<noteq> []" using sc by auto
  have "highscore (last returning_player) = last (map highscore returning_player)"
    using ne by (simp add: last_map)
  then have "highscore (last returning_player) = Num 7" using hi by simp
  moreover have "score_values returning_player = [0]"
    by (simp add: score_values_map sc)
  ultimately show ?thesis by simp
qed

text \<open>
  C10. A tick that ends the game returns one of the three \<open>gameOver\<close> states: \<open>running\<close>
  is now false, the interval is stopped and the message is shown, and every other
  variable is as before the tick; the head that collided is not on the snake.
\<close>

theorem game_over_tick_changes_only_running:
  assumes "running s" "\<not> paused s" "step c s = Returned s'" "\<not> running s'"
  shows "s' \<in> {gameOver ''Hit the wall!'' s, gameOver ''You bit yourself!'' s,
               gameOver ''Hit an obstacle!'' s} \<and>
         snake s' = snake s \<and> food s' = food s \<and> obstacles s' = obstacles s \<and>
         score s' = score s \<and> level s' = level s \<and> stepInterval s' = stepInterval s \<and>
         dir s' = dir s \<and> paused s' = paused s \<and> highscore s' = highscore s \<and>
         store s' = store s \<and> rng s' = rng s \<and>
         wrapChecked s' = wrapChecked s \<and> obstaclesChecked s' = obstaclesChecked s"
  using assms(1,2)
proof (cases rule: step_cases [where c = c])
  case unmodelled
  with assms(3) show ?thesis by simp
next
  case (wall nh)
  with assms(3) show ?thesis by (auto simp: gameOver_fields)
next
  case (self nh)
  with assms(3) show ?thesis by (auto simp: gameOver_fields)
next
  case (no_obstacles nh)
  with assms(3) show ?thesis by simp
next
  case (obstacle nh obs)
  with assms(3) show ?thesis by (auto simp: gameOver_fields)
next
  case (no_food nh obs)
  with assms(3) show ?thesis by simp
next
  case (move nh obs f)
  with assms(1,3,4) show ?thesis by auto
next
  case (eat nh obs)
  from step_eat [OF assms(1,2) eat] assms(3,4) show ?thesis by auto
qed

text \<open>The theorem at \<open>at_right_edge\<close>, whose next cell is beyond the right edge.\<close>

theorem game_over_tick_changes_only_running_witness:
  "running at_right_edge \<and> \<not> paused at_right_edge \<and>
   step grid10 at_right_edge = Returned (gameOver ''Hit the wall!'' at_right_edge) \<and>
   \<not> running (gameOver ''Hit the wall!'' at_right_edge) \<and>
   snake (gameOver ''Hit the wall!'' at_right_edge) = [(9, 5), (8, 5)] \<and>
   score (gameOver ''Hit the wall!'' at_right_edge) = Num 1"
proof -
  have r: "running at_right_edge" and p: "\<not> paused at_right_edge"
    by (simp_all add: at_right_edge_def)
  have st: "step grid10 at_right_edge = Returned (gameOver ''Hit the wall!'' at_right_edge)"
    by (simp add: step_def newHead_def at_right_edge_def grid10_def)
  have e: "\<not> running (gameOver ''Hit the wall!'' at_right_edge)"
    by (simp add: gameOver_fields)
  from game_over_tick_changes_only_running [OF r p st e] r p st e show ?thesis
    by (simp add: at_right_edge_def)
qed

end
